theory Spec2Isabelle
  imports Main "HOL-Library.Sublist" "HOL-Library.Multiset"
begin

section \<open>Shared data model\<close>

text \<open>
  Go errors are values: \<open>errors.New msg\<close> and \<open>errors.Wrap cause msg\<close>. A nil error
  is \<open>None\<close>, a non-nil one is \<open>Some e\<close>.
\<close>

datatype error = errors_New string | errors_Wrap error string

text \<open>\<open>metav1.OwnerReference\<close>, restricted to the four fields the code writes and reads.\<close>

record OwnerReference =
  APIVersion :: string
  Kind :: string
  Name :: string
  UID :: string

type_synonym OwnerReferenceList = "OwnerReference list"

text \<open>
  Modelled from the spec: the status kinds of package \<open>client\<close>, which is not among the
  sources. The spec names \<open>Applied\<close>, \<open>ApplyFailed\<close>, \<open>Deleted\<close>, \<open>DeleteFailed\<close> and
  allows further kinds.
\<close>

datatype StatusType =
    StatusTypeApplied
  | StatusTypeApplyFailed
  | StatusTypeDeleted
  | StatusTypeDeleteFailed
  | StatusTypeOther string

text \<open>
  Modelled from the spec: \<open>client.PostStatusEntry\<close>, a status kind together with the
  identity of the item it reports on. The getters \<open>GetAPIVersion\<close>, \<open>GetKind\<close>, \<open>GetName\<close>,
  \<open>GetUID\<close> are the field selectors.
\<close>

record PostStatusEntry =
  StatusType :: StatusType
  GetAPIVersion :: string
  GetKind :: string
  GetName :: string
  GetUID :: string

text \<open>
  The values that travel through a callback as \<open>interface{}\<close>: the address of the item
  about to be processed (Pre), a status entry (Post), or anything else.
\<close>

datatype interface =
    UnstructuredPtr
  | StatusEntry PostStatusEntry
  | OtherValue string

text \<open>
  \<open>context.Context\<close>: \<open>context.Background()\<close> can never be cancelled; a context handed in by
  the caller may have been (the flag).
\<close>

datatype go_context = Background | CallerContext bool

fun cancelled :: "go_context \<Rightarrow> bool" where
  "cancelled Background = False"
| "cancelled (CallerContext c) = c"

text \<open>
  A callback is \<open>func(interface{}, error) error\<close>. Whatever mutable state its closure can
  reach is the explicit state \<open>'s\<close>. The option types of package \<open>operator\<close> follow, with
  the fields the sources read and write; an embedded struct is a field of its own.
\<close>

type_synonym 's Callback = "interface \<Rightarrow> error option \<Rightarrow> 's \<Rightarrow> error option \<times> 's"

record 's Callbacks =
  Pre :: "'s Callback list"
  Post :: "'s Callback list"

record 's operator_Options =
  DryRun :: "string list"
  Callbacks :: "'s Callbacks"

record 's ApplyOptions =
  OwnerReferences :: "OwnerReference list"
  Options :: "'s operator_Options"

datatype DeletionPropagation =
    DeletePropagationOrphan
  | DeletePropagationBackground
  | DeletePropagationForeground

record 's DeleteOptions =
  DeletionPropagation :: DeletionPropagation
  DeleteOptions_Options :: "'s operator_Options"

text \<open>
  Modelled from the spec: \<open>fireCallbacks\<close> of package \<open>operator\<close>, which is not among the
  sources. The callbacks run in order on the same value and error; the first one that
  returns an error stops the chain and that error is the result (spec 3). The spec (4.5,
  7) has an error of the remote apply or delete abort the remaining items and be returned
  by the operator, and the operators return such an error through the result of this
  function only; so when no callback fails, the result is the error that was handed in.
\<close>

fun fireCallbacks :: "interface \<Rightarrow> error option \<Rightarrow> 's Callback list \<Rightarrow> 's \<Rightarrow> error option \<times> 's" where
  "fireCallbacks v err [] s = (err, s)"
| "fireCallbacks v err (callback # cbs) s =
     (case callback v err s of
        (Some callbackErr, s') \<Rightarrow> (Some callbackErr, s')
      | (None, s') \<Rightarrow> fireCallbacks v err cbs s')"

section \<open>The orchestration manager\<close>

subsection \<open>Operators as seen by the manager\<close>

text \<open>
  The manager knows an operator only through the interface \<open>Apply\<close>/\<open>Delete\<close>. What an
  implementation does during one call is a behaviour: it works on the outside world
  \<open>'w\<close>, fires the Pre or the Post chain it was handed on a value and an error, reads the
  chain's result, and goes on, until it returns its error. The callbacks are opaque to
  it: all it can do with them is fire them.
\<close>

datatype phase = PrePhase | PostPhase

datatype 'w behaviour =
    Return "error option" 'w
  | Fire phase interface "error option" 'w "error option \<Rightarrow> 'w \<Rightarrow> 'w behaviour"

type_synonym opid = nat

record 'w Operator =
  ident :: opid
  Apply :: "go_context \<Rightarrow> OwnerReference list \<Rightarrow> string list \<Rightarrow> 'w \<Rightarrow> 'w behaviour"
  Delete :: "go_context \<Rightarrow> DeletionPropagation \<Rightarrow> string list \<Rightarrow> 'w \<Rightarrow> 'w behaviour"

text \<open>
  The state a callback built by the manager can reach: the outside world (the caller's
  callbacks) and the accumulator \<open>newRefs\<close> of the running \<open>useOperator\<close> call (the
  harvesting callback, through the pointer \<open>list\<close>).
\<close>

record 'w frame =
  world :: 'w
  newRefs :: OwnerReferenceList

text \<open>
  The record of what the manager did, kept beside the state: every call of an operator
  with its arguments, its return, and every firing of a callback chain with its result.
\<close>

datatype 'w call =
    ApplyCalled opid go_context "'w frame ApplyOptions"
  | ApplyReturned opid "error option"
  | DeleteCalled opid go_context "'w frame DeleteOptions"
  | DeleteReturned opid "error option"
  | Fired phase interface "error option" "error option"

record 'w mstate =
  frame :: "'w frame"
  calls :: "'w call list"

definition chain :: "phase \<Rightarrow> 's Callbacks \<Rightarrow> 's Callback list" where
  "chain ph cbs = (case ph of PrePhase \<Rightarrow> Pre cbs | PostPhase \<Rightarrow> Post cbs)"

text \<open>Running a behaviour against the callbacks of the call.\<close>

primrec run :: "'w frame Callbacks \<Rightarrow> 'w behaviour \<Rightarrow> 'w mstate \<Rightarrow> error option \<times> 'w mstate" where
  "run cbs (Return err w) s = (err, s\<lparr>frame := (frame s)\<lparr>world := w\<rparr>\<rparr>)"
| "run cbs (Fire ph v err w k) s =
     (case fireCallbacks v err (chain ph cbs) ((frame s)\<lparr>world := w\<rparr>) of
        (r, f') \<Rightarrow>
          run cbs (k r (world f'))
            (s\<lparr>frame := f', calls := calls s @ [Fired ph v err r]\<rparr>))"

definition call_Apply :: "'w Operator \<Rightarrow> go_context \<Rightarrow> 'w frame ApplyOptions \<Rightarrow> 'w mstate \<Rightarrow> error option \<times> 'w mstate" where
  "call_Apply opr ctx applyOpts s =
     (case run (Callbacks (Options applyOpts))
             (Apply opr ctx (OwnerReferences applyOpts) (DryRun (Options applyOpts)) (world (frame s)))
             (s\<lparr>calls := calls s @ [ApplyCalled (ident opr) ctx applyOpts]\<rparr>) of
        (err, s') \<Rightarrow> (err, s'\<lparr>calls := calls s' @ [ApplyReturned (ident opr) err]\<rparr>))"

definition call_Delete :: "'w Operator \<Rightarrow> go_context \<Rightarrow> 'w frame DeleteOptions \<Rightarrow> 'w mstate \<Rightarrow> error option \<times> 'w mstate" where
  "call_Delete opr ctx deleteOptions s =
     (case run (Callbacks (DeleteOptions_Options deleteOptions))
             (Delete opr ctx (DeletionPropagation deleteOptions)
                (DryRun (DeleteOptions_Options deleteOptions)) (world (frame s)))
             (s\<lparr>calls := calls s @ [DeleteCalled (ident opr) ctx deleteOptions]\<rparr>) of
        (err, s') \<Rightarrow> (err, s'\<lparr>calls := calls s' @ [DeleteReturned (ident opr) err]\<rparr>))"

subsection \<open>Options and the manager\<close>

text \<open>
  Modelled from the spec: the type \<open>Options\<close> of package \<open>manager\<close> and its \<open>OnError\<close>
  policy, whose declarations are not among the sources. The caller's callbacks reach the
  outside world only.
\<close>

datatype OnError = StopOnError | PurgeOnError

record 'w manager_Options =
  options_DryRun :: bool
  SetOwnerReferences :: bool
  OnError :: OnError
  options_Callbacks :: "'w Callbacks"

text \<open>
  The forest is a Go map from parent to children. One iteration over it visits the
  entries in some order, each key once: an association list. The list \<open>operators\<close> has
  the entries in the order in which the walk of \<open>manageOperators\<close> visits them, whatever
  that order is. The purge iterates over the map a second time, in an order of its own:
  \<open>purgeParents\<close> and \<open>Do\<close> take that order, a list with the same entries, as the
  argument \<open>order\<close>. A nil operator is \<open>None\<close>.
\<close>

type_synonym 'w forest = "('w Operator option \<times> 'w Operator option list) list"

record 'w manager =
  operators :: "'w forest"

definition DryRunAll :: string where
  "DryRunAll = ''All''"

definition getDryRunFlag :: "bool \<Rightarrow> string list" where
  "getDryRunFlag dryRun = (let flags = [] in if dryRun then flags @ [DryRunAll] else flags)"

text \<open>A caller's callback, as the manager hands it on: it leaves the accumulator alone.\<close>

definition caller_callback :: "'w Callback \<Rightarrow> 'w frame Callback" where
  "caller_callback cb v err f = (case cb v err (world f) of (r, w') \<Rightarrow> (r, f\<lparr>world := w'\<rparr>))"

definition caller_callbacks :: "'w Callbacks \<Rightarrow> 'w frame Callbacks" where
  "caller_callbacks cbs = \<lparr>Pre = map caller_callback (Pre cbs), Post = map caller_callback (Post cbs)\<rparr>"

text \<open>The closure \<open>ownerReferenceCallback\<close> builds; \<open>*list\<close> is the frame's \<open>newRefs\<close>.\<close>

definition harvest :: "'w frame Callback" where
  "harvest v err f =
     (case v of
        StatusEntry entry \<Rightarrow>
          (if err = None \<and> StatusType entry \<noteq> StatusTypeApplyFailed
              \<and> StatusType entry \<noteq> StatusTypeDeleteFailed
           then (err, f\<lparr>newRefs := newRefs f @
                   [\<lparr>APIVersion = GetAPIVersion entry, Kind = GetKind entry,
                     Name = GetName entry, UID = GetUID entry\<rparr>]\<rparr>)
           else (err, f))
      | _ \<Rightarrow> (Some (errors_New ''can't parse interface{} to StatusEntry interface''), f))"

text \<open>The pointer \<open>list\<close>: nil, or the address of the accumulator of the frame.\<close>

datatype list_ptr = NewRefsPtr

definition ownerReferenceCallback :: "'w frame Callbacks \<Rightarrow> list_ptr option \<Rightarrow> 'w frame Callbacks" where
  "ownerReferenceCallback callbacks list =
     (case list of
        None \<Rightarrow> callbacks
      | Some _ \<Rightarrow> callbacks\<lparr>Post := Post callbacks @ [harvest]\<rparr>)"

definition useOperator :: "'w manager \<Rightarrow> go_context \<Rightarrow> 'w Operator option \<Rightarrow> 'w manager_Options \<Rightarrow> OwnerReference list \<Rightarrow> 'w mstate \<Rightarrow> (OwnerReference list \<times> error option) \<times> 'w mstate" where
  "useOperator m ctx opr options references s0 =
     (let s = s0\<lparr>frame := (frame s0)\<lparr>newRefs := []\<rparr>\<rparr> in
      case opr of
        None \<Rightarrow> ((newRefs (frame s), None), s)
      | Some opr' \<Rightarrow>
          (let callbacks = caller_callbacks (options_Callbacks options);
               callbacks = (if SetOwnerReferences options
                            then ownerReferenceCallback callbacks (Some NewRefsPtr)
                            else callbacks);
               applyOpts = \<lparr>OwnerReferences = references,
                            Options = \<lparr>DryRun = getDryRunFlag (options_DryRun options),
                                       Callbacks = callbacks\<rparr>\<rparr>
           in case call_Apply opr' ctx applyOpts s of
                (err, s') \<Rightarrow> ((newRefs (frame s'), err), s')))"

text \<open>The inner loop of \<open>manageOperators\<close>: the children of one parent, in order.\<close>

fun manageChildren :: "'w manager \<Rightarrow> go_context \<Rightarrow> 'w manager_Options \<Rightarrow> OwnerReference list \<Rightarrow> 'w Operator option list \<Rightarrow> 'w mstate \<Rightarrow> error option \<times> 'w mstate" where
  "manageChildren m ctx options references [] s = (None, s)"
| "manageChildren m ctx options references (resource # children) s =
     (case useOperator m ctx resource options references s of
        ((_, Some err), s') \<Rightarrow> (Some err, s')
      | ((_, None), s') \<Rightarrow> manageChildren m ctx options references children s')"

text \<open>The outer loop of \<open>manageOperators\<close>, over the entries still to be visited.\<close>

fun manageEntries :: "'w manager \<Rightarrow> go_context \<Rightarrow> 'w manager_Options \<Rightarrow> 'w forest \<Rightarrow> 'w mstate \<Rightarrow> error option \<times> 'w mstate" where
  "manageEntries m ctx options [] s = (None, s)"
| "manageEntries m ctx options ((parent, children) # rest) s =
     (case useOperator m ctx parent options [] s of
        ((references, Some err), s1) \<Rightarrow> (Some err, s1)
      | ((references, None), s1) \<Rightarrow>
          (case manageChildren m ctx options references children s1 of
             (Some err, s2) \<Rightarrow> (Some err, s2)
           | (None, s2) \<Rightarrow> manageEntries m ctx options rest s2))"

definition manageOperators :: "'w manager \<Rightarrow> go_context \<Rightarrow> 'w manager_Options \<Rightarrow> 'w mstate \<Rightarrow> error option \<times> 'w mstate" where
  "manageOperators m ctx options s = manageEntries m ctx options (operators m) s"

fun purgeEntries :: "'w frame DeleteOptions \<Rightarrow> 'w forest \<Rightarrow> 'w mstate \<Rightarrow> 'w mstate" where
  "purgeEntries deleteOptions [] s = s"
| "purgeEntries deleteOptions ((opr, children) # rest) s =
     (case opr of
        None \<Rightarrow> purgeEntries deleteOptions rest s
      | Some opr' \<Rightarrow>
          (case call_Delete opr' Background deleteOptions s of
             (_, s') \<Rightarrow> purgeEntries deleteOptions rest s'))"

definition purgeParents :: "'w manager \<Rightarrow> 'w manager_Options \<Rightarrow> 'w forest \<Rightarrow> 'w mstate \<Rightarrow> 'w mstate" where
  "purgeParents m options order s =
     (let deleteOptions = \<lparr>DeletionPropagation = DeletePropagationForeground,
                           DeleteOptions_Options =
                             \<lparr>DryRun = getDryRunFlag (options_DryRun options),
                              Callbacks = caller_callbacks (options_Callbacks options)\<rparr>\<rparr>
      in purgeEntries deleteOptions order s)"

definition Do :: "'w manager \<Rightarrow> go_context \<Rightarrow> 'w manager_Options \<Rightarrow> 'w forest \<Rightarrow> 'w mstate \<Rightarrow> error option \<times> 'w mstate" where
  "Do m ctx options order s =
     (case manageOperators m ctx options s of
        (Some err, s') \<Rightarrow>
          (if OnError options = PurgeOnError
           then (Some err, purgeParents m options order s')
           else (Some err, s'))
      | (None, s') \<Rightarrow> (None, s'))"

subsection \<open>Reading the record of calls\<close>

text \<open>
  The events between two states; the operators an event list applied and deleted, with
  the arguments of each call; the error of the last apply; the operators of a forest in
  its order; and the check that applies come one after the other, each returning before
  the next is called, an error only from the last.
\<close>

definition events_of :: "'w mstate \<Rightarrow> 'w mstate \<Rightarrow> 'w call list" where
  "events_of s s' = drop (length (calls s)) (calls s')"

fun is_Fired :: "'w call \<Rightarrow> bool" where
  "is_Fired (Fired ph v err r) = True"
| "is_Fired _ = False"

definition nonfailed :: "PostStatusEntry \<Rightarrow> bool" where
  "nonfailed entry = (StatusType entry \<noteq> StatusTypeApplyFailed \<and> StatusType entry \<noteq> StatusTypeDeleteFailed)"

definition owner_of :: "PostStatusEntry \<Rightarrow> OwnerReference" where
  "owner_of entry = \<lparr>APIVersion = GetAPIVersion entry, Kind = GetKind entry, Name = GetName entry, UID = GetUID entry\<rparr>"

fun harvest_of :: "'w call \<Rightarrow> OwnerReference list" where
  "harvest_of (Fired PostPhase (StatusEntry entry) err None) = (if nonfailed entry then [owner_of entry] else [])"
| "harvest_of _ = []"

definition harvested :: "'w call list \<Rightarrow> OwnerReference list" where
  "harvested evs = concat (map harvest_of evs)"

fun sequential :: "'w call list \<Rightarrow> opid option \<Rightarrow> bool" where
  "sequential [] cur = (cur = None)"
| "sequential (ApplyCalled i ctx opts # evs) cur = (cur = None \<and> sequential evs (Some i))"
| "sequential (ApplyReturned i err # evs) cur = (cur = Some i \<and> (err \<noteq> None \<longrightarrow> evs = []) \<and> sequential evs None)"
| "sequential (Fired ph v err r # evs) cur = (cur \<noteq> None \<and> sequential evs cur)"
| "sequential (DeleteCalled i ctx opts # evs) cur = False"
| "sequential (DeleteReturned i err # evs) cur = False"

fun applied :: "'w call list \<Rightarrow> (opid \<times> go_context \<times> 'w frame ApplyOptions) list" where
  "applied [] = []"
| "applied (ApplyCalled i ctx opts # evs) = (i, ctx, opts) # applied evs"
| "applied (_ # evs) = applied evs"

fun deleted :: "'w call list \<Rightarrow> (opid \<times> go_context \<times> 'w frame DeleteOptions) list" where
  "deleted [] = []"
| "deleted (DeleteCalled i ctx opts # evs) = (i, ctx, opts) # deleted evs"
| "deleted (_ # evs) = deleted evs"

definition outcome :: "'w call list \<Rightarrow> error option" where
  "outcome evs =
     (if evs = [] then None
      else case last evs of ApplyReturned i err \<Rightarrow> err | _ \<Rightarrow> None)"

definition parents :: "'w forest \<Rightarrow> 'w Operator list" where
  "parents forest = concat (map (\<lambda>(parent, children). case parent of None \<Rightarrow> [] | Some opr \<Rightarrow> [opr]) forest)"

definition present :: "'w Operator option list \<Rightarrow> opid list" where
  "present oprs = concat (map (\<lambda>opr. case opr of None \<Rightarrow> [] | Some opr' \<Rightarrow> [ident opr']) oprs)"

definition plan :: "'w forest \<Rightarrow> opid list" where
  "plan forest = concat (map (\<lambda>(parent, children). present (parent # children)) forest)"

definition applyOpts_of :: "'w manager_Options \<Rightarrow> OwnerReference list \<Rightarrow> 'w frame ApplyOptions" where
  "applyOpts_of options references =
     \<lparr>OwnerReferences = references,
      Options = \<lparr>DryRun = getDryRunFlag (options_DryRun options),
                 Callbacks = (if SetOwnerReferences options
                              then ownerReferenceCallback (caller_callbacks (options_Callbacks options)) (Some NewRefsPtr)
                              else caller_callbacks (options_Callbacks options))\<rparr>\<rparr>"

definition walk :: "'w call list \<Rightarrow> error option \<Rightarrow> opid list \<Rightarrow> bool" where
  "walk evs err ids \<longleftrightarrow>
     sequential evs None \<and> outcome evs = err \<and> prefix (map fst (applied evs)) ids \<and>
     (err = None \<longrightarrow> map fst (applied evs) = ids) \<and> deleted evs = []"

definition apply_args_ok :: "go_context \<Rightarrow> 'w manager_Options \<Rightarrow> (opid \<times> go_context \<times> 'w frame ApplyOptions) \<Rightarrow> bool" where
  "apply_args_ok ctx options a \<longleftrightarrow>
     fst (snd a) = ctx \<and>
     DryRun (Options (snd (snd a))) = getDryRunFlag (options_DryRun options) \<and>
     (\<not> SetOwnerReferences options \<longrightarrow> OwnerReferences (snd (snd a)) = [])"

fun fired_entries :: "'w call list \<Rightarrow> PostStatusEntry list" where
  "fired_entries [] = []"
| "fired_entries (Fired PostPhase (StatusEntry entry) err r # evs) = entry # fired_entries evs"
| "fired_entries (_ # evs) = fired_entries evs"

fun post_succeeded :: "'w call \<Rightarrow> bool" where
  "post_succeeded (Fired PostPhase v err r) = (r = None)"
| "post_succeeded _ = True"

definition purge_options :: "'w manager_Options \<Rightarrow> 'w frame DeleteOptions" where
  "purge_options options =
     \<lparr>DeletionPropagation = DeletePropagationForeground,
      DeleteOptions_Options =
        \<lparr>DryRun = getDryRunFlag (options_DryRun options),
         Callbacks = caller_callbacks (options_Callbacks options)\<rparr>\<rparr>"

section \<open>The linked-items operator\<close>

subsection \<open>Items and the memory they live in\<close>

text \<open>
  An \<open>unstructured.Unstructured\<close> is a struct with one field, \<open>Object\<close>, a Go map: copying the
  struct copies the reference, not the map. The maps live in a heap; \<open>Object\<close> is nil or an
  address. Every address holds a map, and \<open>next_addr\<close> is the one the next \<open>make\<close> hands out. Of a map's content the operator reads \<open>metadata.name\<close> (absent: empty) and
  reads and writes \<open>metadata.ownerReferences\<close> and \<open>metadata.labels\<close> (absent: \<open>None\<close>);
  the rest is carried along. The nested \<open>metadata\<close>
  map is taken to belong to one object only.
\<close>

type_synonym addr = nat

type_synonym labels = "string \<rightharpoonup> string"

record object =
  metadata_name :: string
  ownerReferences :: "OwnerReference list option"
  labels :: "labels option"
  other_fields :: "(string \<times> string) list"

definition empty_object :: object where
  "empty_object = \<lparr>metadata_name = [], ownerReferences = None, labels = None, other_fields = []\<rparr>"

record Unstructured =
  Object :: "addr option"

text \<open>
  What callbacks and the remote client can reach: the heap with its allocation pointer,
  the loop variable \<open>u\<close> of \<open>Apply\<close> and \<open>Delete\<close> (the Pre callbacks are handed its
  address), and everything else, \<open>remote\<close>.
\<close>

record 'w store =
  heap :: "addr \<Rightarrow> object"
  next_addr :: addr
  u :: Unstructured
  remote :: 'w

text \<open>The record of what the operator did, kept beside the store.\<close>

datatype tevent =
    Wiped string "error option"
  | RemoteApply "object option" "string list"
  | RemoteApplyReturned "error option"
  | RemoteDelete "object option"
  | RemoteDeleteReturned "error option"
  | ChainFired phase interface "error option" "error option"

record 'w tstate =
  store :: "'w store"
  trace :: "tevent list"

definition content :: "'w store \<Rightarrow> Unstructured \<Rightarrow> object option" where
  "content st item = (case Object item of None \<Rightarrow> None | Some a \<Rightarrow> Some (heap st a))"

subsection \<open>The methods of \<open>Unstructured\<close> the operator calls, on the loop variable\<close>

text \<open>\<open>u.GetLabels()\<close>: a copy of \<open>metadata.labels\<close>, nil when there is none.\<close>

definition GetLabels :: "'w store \<Rightarrow> labels option" where
  "GetLabels st = (case content st (u st) of None \<Rightarrow> None | Some obj \<Rightarrow> labels obj)"

text \<open>
  \<open>u.setNestedField\<close>: a nil \<open>Object\<close> is replaced by a fresh map first, in \<open>u\<close> only; an
  existing map is written in place, for every holder of the reference.
\<close>

definition setNestedField :: "(object \<Rightarrow> object) \<Rightarrow> 'w store \<Rightarrow> 'w store" where
  "setNestedField upd st =
     (case Object (u st) of
        None \<Rightarrow> st\<lparr>heap := (heap st)(next_addr st := upd empty_object),
                   next_addr := next_addr st + 1,
                   u := (u st)\<lparr>Object := Some (next_addr st)\<rparr>\<rparr>
      | Some a \<Rightarrow> st\<lparr>heap := (heap st)(a := upd (heap st a))\<rparr>)"

text \<open>\<open>RemoveNestedField\<close>: nothing to remove in a nil map.\<close>

definition removeNestedField :: "(object \<Rightarrow> object) \<Rightarrow> 'w store \<Rightarrow> 'w store" where
  "removeNestedField upd st =
     (case Object (u st) of
        None \<Rightarrow> st
      | Some a \<Rightarrow> st\<lparr>heap := (heap st)(a := upd (heap st a))\<rparr>)"

text \<open>
  \<open>u.SetOwnerReferences(references)\<close>. A Go slice is nil or a list; the operator only calls
  this after \<open>findOwnerID\<close> found an element, so with a non-nil slice.
\<close>

definition SetOwnerReferences_u :: "OwnerReference list \<Rightarrow> 'w store \<Rightarrow> 'w store" where
  "SetOwnerReferences_u references st =
     setNestedField (\<lambda>obj. obj\<lparr>ownerReferences := Some references\<rparr>) st"

definition SetLabels :: "labels option \<Rightarrow> 'w store \<Rightarrow> 'w store" where
  "SetLabels lbls st =
     (case lbls of
        None \<Rightarrow> removeNestedField (\<lambda>obj. obj\<lparr>labels := None\<rparr>) st
      | Some l \<Rightarrow> setNestedField (\<lambda>obj. obj\<lparr>labels := Some l\<rparr>) st)"

text \<open>\<open>u.SetUnstructuredContent(content)\<close> assigns the field \<open>Object\<close> of \<open>u\<close>.\<close>

definition SetUnstructuredContent :: "addr option \<Rightarrow> 'w store \<Rightarrow> 'w store" where
  "SetUnstructuredContent c st = st\<lparr>u := (u st)\<lparr>Object := c\<rparr>\<rparr>"

subsection \<open>The remote client\<close>

text \<open>
  The helpers \<open>wipeRemoved\<close>, \<open>applyObject\<close> and \<open>deleteObject\<close> of package \<open>operator\<close> and the
  client they drive are not among the sources. What they do for a given client is a
  parameter: any function of their arguments and the store. \<open>applyObject\<close> returns a
  pointer to an \<open>Unstructured\<close>, which the operator dereferences: the model has the value
  it points to.
\<close>

record 'w Client =
  client_wipeRemoved :: "go_context \<Rightarrow> Unstructured list \<Rightarrow> string \<Rightarrow> 'w store operator_Options
                           \<Rightarrow> 'w store \<Rightarrow> error option \<times> 'w store"
  client_applyObject :: "go_context \<Rightarrow> Unstructured \<Rightarrow> string list
                           \<Rightarrow> 'w store \<Rightarrow> (Unstructured \<times> PostStatusEntry \<times> error option) \<times> 'w store"
  client_deleteObject :: "go_context \<Rightarrow> Unstructured \<Rightarrow> 'w store DeleteOptions
                           \<Rightarrow> 'w store \<Rightarrow> (PostStatusEntry \<times> error option) \<times> 'w store"

definition wipeRemoved :: "go_context \<Rightarrow> 'w Client \<Rightarrow> Unstructured list \<Rightarrow> string \<Rightarrow> 'w store operator_Options \<Rightarrow> 'w tstate \<Rightarrow> error option \<times> 'w tstate" where
  "wipeRemoved ctx c its ownerID options s =
     (case client_wipeRemoved c ctx its ownerID options (store s) of
        (err, st') \<Rightarrow> (err, \<lparr>store = st', trace = trace s @ [Wiped ownerID err]\<rparr>))"

definition applyObject :: "go_context \<Rightarrow> 'w Client \<Rightarrow> Unstructured \<Rightarrow> string list \<Rightarrow> 'w tstate \<Rightarrow> (Unstructured \<times> PostStatusEntry \<times> error option) \<times> 'w tstate" where
  "applyObject ctx c item stages s =
     (case client_applyObject c ctx item stages (store s) of
        ((new1, statusEntry, err), st') \<Rightarrow>
          ((new1, statusEntry, err),
           \<lparr>store = st',
            trace = trace s @ [RemoteApply (content (store s) item) stages, RemoteApplyReturned err]\<rparr>))"

definition deleteObject :: "go_context \<Rightarrow> 'w Client \<Rightarrow> Unstructured \<Rightarrow> 'w store DeleteOptions \<Rightarrow> 'w tstate \<Rightarrow> (PostStatusEntry \<times> error option) \<times> 'w tstate" where
  "deleteObject ctx c item opts s =
     (case client_deleteObject c ctx item opts (store s) of
        ((state, err), st') \<Rightarrow>
          ((state, err),
           \<lparr>store = st',
            trace = trace s @ [RemoteDelete (content (store s) item), RemoteDeleteReturned err]\<rparr>))"

text \<open>A call of \<open>fireCallbacks\<close> by the operator, recorded with its result.\<close>

definition fire :: "phase \<Rightarrow> interface \<Rightarrow> error option \<Rightarrow> 'w store Callback list \<Rightarrow> 'w tstate \<Rightarrow> error option \<times> 'w tstate" where
  "fire ph v err cbs s =
     (case fireCallbacks v err cbs (store s) of
        (r, st') \<Rightarrow> (r, \<lparr>store = st', trace = trace s @ [ChainFired ph v err r]\<rparr>))"

definition on_store :: "('w store \<Rightarrow> 'w store) \<Rightarrow> 'w tstate \<Rightarrow> 'w tstate" where
  "on_store f s = s\<lparr>store := f (store s)\<rparr>"

subsection \<open>The operator\<close>

definition message :: string where
  "message = ''ownerID''"

record 'w triggersOperator =
  items :: "Unstructured list"
  Client :: "'w Client"

definition errNotFound :: error where
  "errNotFound = errors_New ''not found''"

fun findOwnerID :: "OwnerReference list \<Rightarrow> string \<times> bool" where
  "findOwnerID [] = ('''', False)"
| "findOwnerID (ref # refs) =
     (if Kind ref = ''Function'' then (UID ref, True) else findOwnerID refs)"

text \<open>
  \<open>mergeMap\<close>. A Go map is nil (\<open>None\<close>) or a map. The source writes the entries of \<open>r\<close> into
  \<open>l\<close> and returns \<open>l\<close>; its caller passes a fresh copy as \<open>l\<close>.
\<close>

definition mergeMap :: "labels option \<Rightarrow> labels option \<Rightarrow> labels option" where
  "mergeMap l r =
     (case l of
        None \<Rightarrow> r
      | Some lm \<Rightarrow> Some (case r of None \<Rightarrow> lm | Some rm \<Rightarrow> lm ++ rm))"

text \<open>
  The loop of \<open>Apply\<close> over \<open>t.items\<close>. Each round copies the element into the loop
  variable \<open>u\<close> and works on that copy; \<open>t.items\<close> itself is never assigned.
\<close>

fun applyItems :: "'w triggersOperator \<Rightarrow> go_context \<Rightarrow> 'w store ApplyOptions \<Rightarrow> string \<Rightarrow> Unstructured list \<Rightarrow> 'w tstate \<Rightarrow> error option \<times> 'w tstate" where
  "applyItems t ctx opts ownerID [] s = (None, s)"
| "applyItems t ctx opts ownerID (item # rest) s =
     (let s0 = on_store (\<lambda>st. st\<lparr>u := item\<rparr>) s;
          s1 = on_store (SetOwnerReferences_u (OwnerReferences opts)) s0;
          newLabels = mergeMap (GetLabels (store s1)) (Some [message \<mapsto> ownerID]);
          s2 = on_store (SetLabels newLabels) s1
      in case fire PrePhase UnstructuredPtr None (Pre (Callbacks (Options opts))) s2 of
           (Some err, s3) \<Rightarrow> (Some err, s3)
         | (None, s3) \<Rightarrow>
             (case applyObject ctx (Client t) (u (store s3)) (DryRun (Options opts)) s3 of
                ((new1, statusEntry, err), s4) \<Rightarrow>
                  (case fire PostPhase (StatusEntry statusEntry) err (Post (Callbacks (Options opts))) s4 of
                     (Some err', s5) \<Rightarrow> (Some err', s5)
                   | (None, s5) \<Rightarrow>
                       applyItems t ctx opts ownerID rest
                         (on_store (SetUnstructuredContent (Object new1)) s5))))"

definition triggersOperator_Apply :: "'w triggersOperator \<Rightarrow> go_context \<Rightarrow> 'w store ApplyOptions \<Rightarrow> 'w tstate \<Rightarrow> error option \<times> 'w tstate" where
  "triggersOperator_Apply t ctx opts s =
     (case findOwnerID (OwnerReferences opts) of
        (ownerID, False) \<Rightarrow> (Some (errors_Wrap errNotFound message), s)
      | (ownerID, True) \<Rightarrow>
          (case wipeRemoved ctx (Client t) (items t) ownerID (Options opts) s of
             (Some err, s') \<Rightarrow> (Some err, s')
           | (None, s') \<Rightarrow> applyItems t ctx opts ownerID (items t) s'))"

fun deleteItems :: "'w triggersOperator \<Rightarrow> go_context \<Rightarrow> 'w store DeleteOptions \<Rightarrow> Unstructured list \<Rightarrow> 'w tstate \<Rightarrow> error option \<times> 'w tstate" where
  "deleteItems t ctx opts [] s = (None, s)"
| "deleteItems t ctx opts (item # rest) s =
     (let s0 = on_store (\<lambda>st. st\<lparr>u := item\<rparr>) s
      in case fire PrePhase UnstructuredPtr None (Pre (Callbacks (DeleteOptions_Options opts))) s0 of
           (Some err, s1) \<Rightarrow> (Some err, s1)
         | (None, s1) \<Rightarrow>
             (case deleteObject ctx (Client t) (u (store s1)) opts s1 of
                ((state, err), s2) \<Rightarrow>
                  (case fire PostPhase (StatusEntry state) err (Post (Callbacks (DeleteOptions_Options opts))) s2 of
                     (Some err', s3) \<Rightarrow> (Some err', s3)
                   | (None, s3) \<Rightarrow> deleteItems t ctx opts rest s3)))"

definition triggersOperator_Delete :: "'w triggersOperator \<Rightarrow> go_context \<Rightarrow> 'w store DeleteOptions \<Rightarrow> 'w tstate \<Rightarrow> error option \<times> 'w tstate" where
  "triggersOperator_Delete t ctx opts s = deleteItems t ctx opts (items t) s"

text \<open>\<open>item.GetName()\<close>, and \<open>contains\<close>.\<close>

definition GetName_of :: "'w store \<Rightarrow> Unstructured \<Rightarrow> string" where
  "GetName_of st item = (case content st item of None \<Rightarrow> [] | Some obj \<Rightarrow> metadata_name obj)"

definition contains :: "'w store \<Rightarrow> Unstructured list \<Rightarrow> string \<Rightarrow> bool" where
  "contains st s nm = list_ex (\<lambda>item. GetName_of st item = nm) s"

definition tevents_of :: "'w tstate \<Rightarrow> 'w tstate \<Rightarrow> tevent list" where
  "tevents_of s s' = drop (length (trace s)) (trace s')"

text \<open>What the operator's items hold, read through their references.\<close>

definition read_items :: "'w triggersOperator \<Rightarrow> 'w tstate \<Rightarrow> object option list" where
  "read_items t s = map (content (store s)) (items t)"

text \<open>A callback that leaves the loop variable and the heap as they are.\<close>

definition keeps_item :: "'w store Callback \<Rightarrow> bool" where
  "keeps_item cb \<longleftrightarrow> (\<forall>v err st. u (snd (cb v err st)) = u st \<and> heap (snd (cb v err st)) = heap st)"

text \<open>The item as \<open>Apply\<close> prepares it: owner references set, tracking label merged in.\<close>

definition stamped :: "'w store \<Rightarrow> Unstructured \<Rightarrow> OwnerReference list \<Rightarrow> string \<Rightarrow> object" where
  "stamped st item references ownerID =
     (let obj = (case content st item of None \<Rightarrow> empty_object | Some obj \<Rightarrow> obj);
          existing = (case labels obj of None \<Rightarrow> Map.empty | Some l \<Rightarrow> l)
      in obj\<lparr>ownerReferences := Some references, labels := Some (existing(message \<mapsto> ownerID))\<rparr>)"

text \<open>The state in which a round of \<open>Apply\<close> fires the Pre chain, for the statements below.\<close>

definition prepare :: "OwnerReference list \<Rightarrow> string \<Rightarrow> Unstructured \<Rightarrow> 'w tstate \<Rightarrow> 'w tstate" where
  "prepare references ownerID item s =
     (let s0 = on_store (\<lambda>st. st\<lparr>u := item\<rparr>) s;
          s1 = on_store (SetOwnerReferences_u references) s0;
          newLabels = mergeMap (GetLabels (store s1)) (Some [message \<mapsto> ownerID])
      in on_store (SetLabels newLabels) s1)"

text \<open>An item that carries the tracking label for an owner.\<close>

definition tracked :: "string \<Rightarrow> object option \<Rightarrow> bool" where
  "tracked ownerID obj =
     (case obj of
        None \<Rightarrow> False
      | Some obj' \<Rightarrow> (case labels obj' of None \<Rightarrow> False | Some l \<Rightarrow> l message = Some ownerID))"

text \<open>A callback that, handed an error, returns that error or none.\<close>

definition passes_error :: "'s Callback \<Rightarrow> bool" where
  "passes_error cb \<longleftrightarrow>
     (\<forall>v e st. fst (cb v (Some e) st) = None \<or> fst (cb v (Some e) st) = Some e)"

text \<open>
  In a list of events: every remote apply (delete) that returned an error is followed by
  the Post chain fired on that error, as the last event, whose result is the operator's.
\<close>

definition apply_surfaced :: "tevent list \<Rightarrow> error option \<Rightarrow> bool" where
  "apply_surfaced evs result \<longleftrightarrow>
     (\<forall>e. RemoteApplyReturned (Some e) \<in> set evs \<longrightarrow>
        result \<noteq> None \<and> (\<exists>v. last evs = ChainFired PostPhase v (Some e) result))"

definition delete_surfaced :: "tevent list \<Rightarrow> error option \<Rightarrow> bool" where
  "delete_surfaced evs result \<longleftrightarrow>
     (\<forall>e. RemoteDeleteReturned (Some e) \<in> set evs \<longrightarrow>
        result \<noteq> None \<and> (\<exists>v. last evs = ChainFired PostPhase v (Some e) result))"

subsection \<open>A concrete forest\<close>

text \<open>
  One parent with two children and a nil entry, over a world that counts what operators
  and callbacks did. The parent processes two items: the first is applied, the second
  reports a failed status. The first child fails; the parent's \<open>Delete\<close> fails too, after
  firing the Post chain. The purge visits the entries in the reverse order of the walk.
\<close>

definition entryA :: PostStatusEntry where
  "entryA = \<lparr>StatusType = StatusTypeApplied, GetAPIVersion = ''v1'', GetKind = ''Function'',
             GetName = ''a'', GetUID = ''u1''\<rparr>"

definition entryB :: PostStatusEntry where
  "entryB = \<lparr>StatusType = StatusTypeApplyFailed, GetAPIVersion = ''v1'', GetKind = ''Trigger'',
             GetName = ''b'', GetUID = ''u2''\<rparr>"

definition example_parent :: "nat Operator" where
  "example_parent =
     \<lparr>ident = 1,
      Apply = (\<lambda>ctx references dryRun w.
         Fire PostPhase (StatusEntry entryA) None (w + 1)
           (\<lambda>r w'. case r of
                Some e \<Rightarrow> Return (Some e) w'
              | None \<Rightarrow> Fire PostPhase (StatusEntry entryB) None (w' + 1) (\<lambda>r' w''. Return r' w''))),
      Delete = (\<lambda>ctx propagation dryRun w.
         Fire PostPhase (StatusEntry entryB) (Some (errors_New ''delete failed'')) (w + 100)
           (\<lambda>r w'. Return r w'))\<rparr>"

definition example_failing_child :: "nat Operator" where
  "example_failing_child =
     \<lparr>ident = 2,
      Apply = (\<lambda>ctx references dryRun w. Return (Some (errors_New ''child failed'')) w),
      Delete = (\<lambda>ctx propagation dryRun w. Return None w)\<rparr>"

definition example_child :: "nat Operator" where
  "example_child =
     \<lparr>ident = 3,
      Apply = (\<lambda>ctx references dryRun w. Return None (w + 1)),
      Delete = (\<lambda>ctx propagation dryRun w. Return None w)\<rparr>"

definition example_manager :: "nat manager" where
  "example_manager =
     \<lparr>operators = [(Some example_parent, [Some example_failing_child, Some example_child]),
                   (None, [])]\<rparr>"

definition example_purge_order :: "nat forest" where
  "example_purge_order = rev (operators example_manager)"

definition example_quiet_manager :: "nat manager" where
  "example_quiet_manager =
     \<lparr>operators = [(Some example_parent, [None, Some example_child])]\<rparr>"

definition example_options :: "OnError \<Rightarrow> bool \<Rightarrow> nat manager_Options" where
  "example_options onError setOwnerReferences =
     \<lparr>options_DryRun = True, SetOwnerReferences = setOwnerReferences, OnError = onError,
      options_Callbacks = \<lparr>Pre = [], Post = [\<lambda>v err w. (err, w + 10)]\<rparr>\<rparr>"

definition example_state :: "nat mstate" where
  "example_state = \<lparr>frame = \<lparr>world = 0, newRefs = []\<rparr>, calls = []\<rparr>"

subsection \<open>A concrete linked-items operator\<close>

text \<open>
  One item, stored at address 0. The client counts its calls in \<open>remote\<close>; on apply the
  server answers with a new object: what was sent, plus the \<open>uid\<close> it assigned.
\<close>

definition example_object :: object where
  "example_object =
     \<lparr>metadata_name = ''trigger-a'', ownerReferences = None,
      labels = Some [''app'' \<mapsto> ''demo''], other_fields = [(''spec'', ''v1'')]\<rparr>"

definition example_tstate :: "nat tstate" where
  "example_tstate =
     \<lparr>store = \<lparr>heap = (\<lambda>a. empty_object)(0 := example_object), next_addr = 1,
               u = \<lparr>Object = None\<rparr>, remote = 0\<rparr>,
      trace = []\<rparr>"

definition example_entry :: "StatusType \<Rightarrow> PostStatusEntry" where
  "example_entry st =
     \<lparr>StatusType = st, GetAPIVersion = ''eventing/v1'', GetKind = ''Trigger'',
      GetName = ''trigger-a'', GetUID = ''srv-1''\<rparr>"

definition example_client :: "nat Client" where
  "example_client =
     \<lparr>client_wipeRemoved = (\<lambda>ctx its ownerID options st. (None, st\<lparr>remote := remote st + 1\<rparr>)),
      client_applyObject = (\<lambda>ctx item stages st.
         ((\<lparr>Object = Some (next_addr st)\<rparr>, example_entry StatusTypeApplied, None),
          st\<lparr>heap := (heap st)(next_addr st :=
                 (case content st item of
                    None \<Rightarrow> empty_object\<lparr>other_fields := [(''uid'', ''srv-1'')]\<rparr>
                  | Some obj \<Rightarrow> obj\<lparr>other_fields := (''uid'', ''srv-1'') # other_fields obj\<rparr>)),
             next_addr := next_addr st + 1,
             remote := remote st + 1\<rparr>)),
      client_deleteObject = (\<lambda>ctx item opts st.
         ((example_entry StatusTypeDeleted, None), st\<lparr>remote := remote st + 1\<rparr>))\<rparr>"

definition example_failing_client :: "nat Client" where
  "example_failing_client =
     \<lparr>client_wipeRemoved = (\<lambda>ctx its ownerID options st. (None, st\<lparr>remote := remote st + 1\<rparr>)),
      client_applyObject = (\<lambda>ctx item stages st.
         ((item, example_entry StatusTypeApplyFailed, Some (errors_New ''apply failed'')),
          st\<lparr>remote := remote st + 1\<rparr>)),
      client_deleteObject = (\<lambda>ctx item opts st.
         ((example_entry StatusTypeDeleteFailed, Some (errors_New ''delete failed'')),
          st\<lparr>remote := remote st + 1\<rparr>))\<rparr>"

definition example_triggers :: "nat Client \<Rightarrow> nat triggersOperator" where
  "example_triggers c = \<lparr>items = [\<lparr>Object = Some 0\<rparr>], Client = c\<rparr>"

definition example_reference :: "string \<Rightarrow> string \<Rightarrow> OwnerReference" where
  "example_reference kind uid =
     \<lparr>APIVersion = ''serverless/v1'', Kind = kind, Name = ''fn'', UID = uid\<rparr>"

definition example_apply_options :: "OwnerReference list \<Rightarrow> nat store ApplyOptions" where
  "example_apply_options references =
     \<lparr>OwnerReferences = references,
      Options = \<lparr>DryRun = [], Callbacks = \<lparr>Pre = [], Post = []\<rparr>\<rparr>\<rparr>"

definition example_delete_options :: "nat store DeleteOptions" where
  "example_delete_options =
     \<lparr>DeletionPropagation = DeletePropagationForeground,
      DeleteOptions_Options = \<lparr>DryRun = [], Callbacks = \<lparr>Pre = [], Post = []\<rparr>\<rparr>\<rparr>"

section \<open>Lemmas about the manager\<close>

lemma caller_callback_app:
  "caller_callback cb v err f = (case cb v err (world f) of (r, w') \<Rightarrow> (r, f\<lparr>world := w'\<rparr>))"
  by (simp add: caller_callback_def)

lemma fire_caller_newRefs:
  "fireCallbacks v err (map caller_callback cs) f = (r, f') \<Longrightarrow> newRefs f' = newRefs f"
proof (induction cs arbitrary: f)
  case Nil then show ?case by simp
next
  case (Cons c cs)
  obtain r0 w' where "c v err (world f) = (r0, w')" by (cases "c v err (world f)")
  then have c: "caller_callback c v err f = (r0, f\<lparr>world := w'\<rparr>)"
    by (simp add: caller_callback_app)
  show ?case
  proof (cases r0)
    case None
    with Cons.prems c have "fireCallbacks v err (map caller_callback cs) (f\<lparr>world := w'\<rparr>) = (r, f')"
      by simp
    from Cons.IH[OF this] show ?thesis by simp
  next
    case (Some e)
    with Cons.prems c show ?thesis by auto
  qed
qed

lemma fire_harvest_newRefs:
  "fireCallbacks v err (map caller_callback cs @ [harvest]) f = (r, f') \<Longrightarrow>
   newRefs f' = newRefs f @ harvest_of (Fired PostPhase v err r)"
proof (induction cs arbitrary: f)
  case Nil
  then show ?case
    by (cases v; cases err) (auto simp: harvest_def nonfailed_def owner_of_def split: if_splits)
next
  case (Cons c cs)
  obtain r0 w' where "c v err (world f) = (r0, w')" by (cases "c v err (world f)")
  then have c: "caller_callback c v err f = (r0, f\<lparr>world := w'\<rparr>)"
    by (simp add: caller_callback_app)
  show ?case
  proof (cases r0)
    case None
    with Cons.prems c have "fireCallbacks v err (map caller_callback cs @ [harvest]) (f\<lparr>world := w'\<rparr>) = (r, f')"
      by simp
    from Cons.IH[OF this] show ?thesis by simp
  next
    case (Some e)
    with Cons.prems c show ?thesis by (cases v) auto
  qed
qed

lemma run_events:
  "run cbs b s = (err, s') \<Longrightarrow> \<exists>evs. calls s' = calls s @ evs \<and> (\<forall>e\<in>set evs. is_Fired e)"
proof (induction b arbitrary: s)
  case (Return e w)
  then show ?case by auto
next
  case (Fire ph v e w k)
  obtain r f' where f: "fireCallbacks v e (chain ph cbs) ((frame s)\<lparr>world := w\<rparr>) = (r, f')"
    by (cases "fireCallbacks v e (chain ph cbs) ((frame s)\<lparr>world := w\<rparr>)")
  with Fire.prems have "run cbs (k r (world f')) (s\<lparr>frame := f', calls := calls s @ [Fired ph v e r]\<rparr>) = (err, s')"
    by simp
  from Fire.IH[OF rangeI rangeI this] obtain evs where "calls s' = (calls s @ [Fired ph v e r]) @ evs" "\<forall>e\<in>set evs. is_Fired e"
    by auto
  then show ?case by (intro exI[of _ "Fired ph v e r # evs"]) simp
qed

lemma run_plain:
  "run (caller_callbacks C) b s = (err, s') \<Longrightarrow> newRefs (frame s') = newRefs (frame s)"
proof (induction b arbitrary: s)
  case (Return e w)
  then show ?case by auto
next
  case (Fire ph v e w k)
  obtain r f' where f: "fireCallbacks v e (chain ph (caller_callbacks C)) ((frame s)\<lparr>world := w\<rparr>) = (r, f')"
    by (cases "fireCallbacks v e (chain ph (caller_callbacks C)) ((frame s)\<lparr>world := w\<rparr>)")
  have "chain ph (caller_callbacks C) = map caller_callback (chain ph C)"
    by (cases ph) (simp_all add: chain_def caller_callbacks_def)
  with f have n: "newRefs f' = newRefs (frame s)"
    using fire_caller_newRefs by fastforce
  from Fire.prems f have "run (caller_callbacks C) (k r (world f')) (s\<lparr>frame := f', calls := calls s @ [Fired ph v e r]\<rparr>) = (err, s')"
    by simp
  from Fire.IH[OF rangeI rangeI this] n show ?case by simp
qed

lemma harvested_append: "harvested (xs @ ys) = harvested xs @ harvested ys"
  by (simp add: harvested_def)

lemma run_harvest:
  "run (ownerReferenceCallback (caller_callbacks C) (Some p)) b s = (err, s') \<Longrightarrow>
   \<exists>evs. calls s' = calls s @ evs \<and> (\<forall>e\<in>set evs. is_Fired e) \<and>
         newRefs (frame s') = newRefs (frame s) @ harvested evs"
proof (induction b arbitrary: s)
  case (Return e w)
  then show ?case by (auto simp: harvested_def)
next
  case (Fire ph v e w k)
  let ?cbs = "ownerReferenceCallback (caller_callbacks C) (Some p)"
  obtain r f' where f: "fireCallbacks v e (chain ph ?cbs) ((frame s)\<lparr>world := w\<rparr>) = (r, f')"
    by (cases "fireCallbacks v e (chain ph ?cbs) ((frame s)\<lparr>world := w\<rparr>)")
  have n: "newRefs f' = newRefs (frame s) @ harvest_of (Fired ph v e r)"
  proof (cases ph)
    case PrePhase
    then have "chain ph ?cbs = map caller_callback (Pre C)"
      by (simp add: chain_def caller_callbacks_def ownerReferenceCallback_def)
    with f have "newRefs f' = newRefs (frame s)" using fire_caller_newRefs by fastforce
    with PrePhase show ?thesis by simp
  next
    case PostPhase
    then have "chain ph ?cbs = map caller_callback (Post C) @ [harvest]"
      by (simp add: chain_def caller_callbacks_def ownerReferenceCallback_def)
    with f have "newRefs f' = newRefs ((frame s)\<lparr>world := w\<rparr>) @ harvest_of (Fired PostPhase v e r)"
      using fire_harvest_newRefs by fastforce
    with PostPhase show ?thesis by simp
  qed
  from Fire.prems f have "run ?cbs (k r (world f')) (s\<lparr>frame := f', calls := calls s @ [Fired ph v e r]\<rparr>) = (err, s')"
    by simp
  from Fire.IH[OF rangeI rangeI this] obtain evs where
    evs: "calls s' = (calls s @ [Fired ph v e r]) @ evs" "\<forall>e\<in>set evs. is_Fired e"
       "newRefs (frame s') = newRefs f' @ harvested evs"
    by auto
  show ?case
    by (rule exI[of _ "Fired ph v e r # evs"]) (use evs n in \<open>simp add: harvested_def\<close>)
qed

lemma useOperator_nil:
  "useOperator m ctx None options references s = ((nr, err), s') \<Longrightarrow>
   nr = [] \<and> err = None \<and> calls s' = calls s"
  by (auto simp: useOperator_def Let_def)

lemma useOperator_some:
  assumes "useOperator m ctx (Some opr) options references s = ((nr, err), s')"
  shows "\<exists>fs. calls s' = calls s @ ApplyCalled (ident opr) ctx (applyOpts_of options references) # fs
                 @ [ApplyReturned (ident opr) err]
            \<and> (\<forall>e\<in>set fs. is_Fired e)
            \<and> nr = (if SetOwnerReferences options then harvested fs else [])"
proof -
  let ?s = "s\<lparr>frame := (frame s)\<lparr>newRefs := []\<rparr>\<rparr>"
  let ?opts = "applyOpts_of options references"
  let ?s1 = "?s\<lparr>calls := calls ?s @ [ApplyCalled (ident opr) ctx ?opts]\<rparr>"
  let ?b = "Apply opr ctx references (getDryRunFlag (options_DryRun options)) (world (frame ?s))"
  obtain e2 s2 where r: "run (Callbacks (Options ?opts)) ?b ?s1 = (e2, s2)"
    by (cases "run (Callbacks (Options ?opts)) ?b ?s1")
  have c: "call_Apply opr ctx ?opts ?s = (e2, s2\<lparr>calls := calls s2 @ [ApplyReturned (ident opr) e2]\<rparr>)"
    using r by (simp add: call_Apply_def applyOpts_of_def)
  have u: "useOperator m ctx (Some opr) options references s =
           ((newRefs (frame s2), e2), s2\<lparr>calls := calls s2 @ [ApplyReturned (ident opr) e2]\<rparr>)"
    using c by (simp add: useOperator_def Let_def applyOpts_of_def)
  with assms have eq: "nr = newRefs (frame s2)" "err = e2" "s' = s2\<lparr>calls := calls s2 @ [ApplyReturned (ident opr) e2]\<rparr>"
    by auto
  show ?thesis
  proof (cases "SetOwnerReferences options")
    case True
    then have "run (ownerReferenceCallback (caller_callbacks (options_Callbacks options)) (Some NewRefsPtr)) ?b ?s1 = (e2, s2)"
      using r by (simp add: applyOpts_of_def)
    from run_harvest[OF this] obtain evs where
      "calls s2 = calls ?s1 @ evs" "\<forall>e\<in>set evs. is_Fired e" "newRefs (frame s2) = newRefs (frame ?s1) @ harvested evs"
      by auto
    with eq True show ?thesis by (intro exI[of _ evs]) simp
  next
    case False
    then have rr: "run (caller_callbacks (options_Callbacks options)) ?b ?s1 = (e2, s2)"
      using r by (simp add: applyOpts_of_def)
    from run_events[OF rr] obtain evs where "calls s2 = calls ?s1 @ evs" "\<forall>e\<in>set evs. is_Fired e"
      by auto
    moreover from run_plain[OF rr] have "newRefs (frame s2) = []" by simp
    ultimately show ?thesis using eq False by (intro exI[of _ evs]) simp
  qed
qed

lemma applied_append: "applied (xs @ ys) = applied xs @ applied ys"
  by (induction xs rule: applied.induct) auto

lemma deleted_append: "deleted (xs @ ys) = deleted xs @ deleted ys"
  by (induction xs rule: deleted.induct) auto

lemma applied_fired: "\<forall>e\<in>set fs. is_Fired e \<Longrightarrow> applied fs = []"
  by (induction fs rule: applied.induct) auto

lemma deleted_fired: "\<forall>e\<in>set fs. is_Fired e \<Longrightarrow> deleted fs = []"
  by (induction fs rule: deleted.induct) auto

lemma sequential_fired:
  "\<forall>e\<in>set fs. is_Fired e \<Longrightarrow> sequential (fs @ evs) (Some i) = sequential evs (Some i)"
  by (induction fs rule: applied.induct) auto

lemma outcome_append: "ys \<noteq> [] \<Longrightarrow> outcome (xs @ ys) = outcome ys"
  by (simp add: outcome_def)

lemma sequential_append:
  "sequential xs c \<Longrightarrow> outcome xs = None \<Longrightarrow> sequential (xs @ ys) c = sequential ys None"
proof (induction xs c rule: sequential.induct)
  case (3 i err evs cur)
  show ?case
  proof (cases "evs = []")
    case True
    with 3 show ?thesis by (simp add: outcome_def)
  next
    case False
    with "3.prems" have "err = None" "sequential evs None" "outcome evs = None"
      by (auto simp: outcome_def)
    with "3.IH" "3.prems" show ?thesis by simp
  qed
qed (auto simp: outcome_def split: if_splits)

lemma sequential_failure:
  "sequential evs c \<Longrightarrow> ApplyReturned i (Some e) \<in> set evs \<Longrightarrow> outcome evs = Some e"
proof (induction evs c rule: sequential.induct)
  case (3 j err evs cur)
  show ?case
  proof (cases "evs = []")
    case True
    with "3.prems" show ?thesis by (simp add: outcome_def)
  next
    case False
    with "3.prems" have "err = None" by auto
    with "3.prems" False have "ApplyReturned i (Some e) \<in> set evs" "sequential evs None" by auto
    with "3.IH" have "outcome evs = Some e" by simp
    with False show ?thesis by (simp add: outcome_def)
  qed
next
  case (2 j ctx opts evs cur)
  then have "outcome evs = Some e" by auto
  then show ?case by (auto simp: outcome_def split: if_splits)
next
  case (4 ph v err r evs cur)
  then have "outcome evs = Some e" by auto
  then show ?case by (auto simp: outcome_def split: if_splits)
qed auto

lemma walk_nil: "walk [] None []"
  by (simp add: walk_def outcome_def)

lemma walk_block:
  assumes "\<forall>e\<in>set fs. is_Fired e"
  shows "walk (ApplyCalled i ctx opts # fs @ [ApplyReturned i err]) err [i]"
  using assms
  by (simp add: walk_def sequential_fired applied_append applied_fired deleted_append
      deleted_fired outcome_def)

lemma walk_append:
  assumes "walk xs None ids" "walk ys err ids'"
  shows "walk (xs @ ys) err (ids @ ids')"
proof -
  from assms have "sequential (xs @ ys) None"
    by (simp add: walk_def sequential_append)
  moreover have "outcome (xs @ ys) = err"
    using assms by (cases "ys = []") (auto simp: walk_def outcome_append outcome_def)
  ultimately show ?thesis
    using assms by (auto simp: walk_def applied_append deleted_append)
qed

lemma walk_failed:
  assumes "walk xs (Some e) ids"
  shows "walk xs (Some e) (ids @ ids')"
  using assms by (auto simp: walk_def)

lemma present_Cons:
  "present (opr # oprs) = (case opr of None \<Rightarrow> [] | Some opr' \<Rightarrow> [ident opr']) @ present oprs"
  by (simp add: present_def)

lemma useOperator_walk:
  assumes "useOperator m ctx opr options references s = ((nr, err), s')"
  shows "\<exists>evs. calls s' = calls s @ evs \<and> walk evs err (present [opr]) \<and>
           applied evs = map (\<lambda>i. (i, ctx, applyOpts_of options references)) (present [opr]) \<and>
           (\<not> SetOwnerReferences options \<longrightarrow> nr = [])"
proof (cases opr)
  case None
  with useOperator_nil assms have "nr = []" "err = None" "calls s' = calls s"
    by blast+
  with None show ?thesis by (simp add: present_def walk_nil)
next
  case (Some opr')
  with useOperator_some assms obtain fs where
    fs: "calls s' = calls s @ ApplyCalled (ident opr') ctx (applyOpts_of options references) # fs
                 @ [ApplyReturned (ident opr') err]"
      "\<forall>e\<in>set fs. is_Fired e" "nr = (if SetOwnerReferences options then harvested fs else [])"
    by blast
  show ?thesis
    by (rule exI[of _ "ApplyCalled (ident opr') ctx (applyOpts_of options references) # fs
                 @ [ApplyReturned (ident opr') err]"])
       (use fs Some in \<open>simp add: walk_block present_def applied_append applied_fired\<close>)
qed

lemma manageChildren_walk:
  "manageChildren m ctx options references children s = (err, s') \<Longrightarrow>
   \<exists>evs. calls s' = calls s @ evs \<and> walk evs err (present children) \<and>
         (\<forall>a\<in>set (applied evs). snd a = (ctx, applyOpts_of options references))"
proof (induction children arbitrary: s)
  case Nil
  then show ?case by (simp add: present_def walk_nil)
next
  case (Cons resource children)
  obtain nr e1 s1 where u: "useOperator m ctx resource options references s = ((nr, e1), s1)"
    by (cases "useOperator m ctx resource options references s") auto
  from useOperator_walk[OF u] obtain evs1 where
    1: "calls s1 = calls s @ evs1" "walk evs1 e1 (present [resource])"
       "applied evs1 = map (\<lambda>i. (i, ctx, applyOpts_of options references)) (present [resource])"
    by blast
  have p: "present (resource # children) = present [resource] @ present children"
    by (simp add: present_def)
  show ?case
  proof (cases e1)
    case (Some e)
    with Cons.prems u have "err = Some e" "s' = s1" by auto
    with 1 Some walk_failed[of evs1 e "present [resource]" "present children"] show ?thesis
      by (intro exI[of _ evs1]) (auto simp: p)
  next
    case None
    with Cons.prems u have "manageChildren m ctx options references children s1 = (err, s')"
      by simp
    from Cons.IH[OF this] obtain evs2 where
      2: "calls s' = calls s1 @ evs2" "walk evs2 err (present children)"
         "\<forall>a\<in>set (applied evs2). snd a = (ctx, applyOpts_of options references)"
      by blast
    from 1 2 None have "walk (evs1 @ evs2) err (present (resource # children))"
      unfolding p by (intro walk_append) auto
    with 1 2 show ?thesis
      by (intro exI[of _ "evs1 @ evs2"]) (auto simp: applied_append)
  qed
qed

lemma plan_Cons: "plan ((parent, children) # rest) = present [parent] @ present children @ plan rest"
  by (simp add: plan_def present_def)

lemma manageEntries_walk:
  "manageEntries m ctx options forest s = (err, s') \<Longrightarrow>
   \<exists>evs. calls s' = calls s @ evs \<and> walk evs err (plan forest) \<and>
         (\<forall>a\<in>set (applied evs). apply_args_ok ctx options a)"
proof (induction forest arbitrary: s)
  case Nil
  then show ?case by (simp add: plan_def walk_nil)
next
  case (Cons entry rest)
  obtain parent children where entry: "entry = (parent, children)" by (cases entry)
  obtain nr e1 s1 where u: "useOperator m ctx parent options [] s = ((nr, e1), s1)"
    by (cases "useOperator m ctx parent options [] s") auto
  from useOperator_walk[OF u] obtain evs1 where
    1: "calls s1 = calls s @ evs1" "walk evs1 e1 (present [parent])"
       "applied evs1 = map (\<lambda>i. (i, ctx, applyOpts_of options [])) (present [parent])"
       "\<not> SetOwnerReferences options \<longrightarrow> nr = []"
    by blast
  have a1: "\<forall>a\<in>set (applied evs1). apply_args_ok ctx options a"
    using 1(3) by (auto simp: apply_args_ok_def applyOpts_of_def)
  show ?case
  proof (cases e1)
    case (Some e)
    with Cons.prems u entry have "err = Some e" "s' = s1" by auto
    with 1 a1 Some walk_failed[of evs1 e "present [parent]" "present children @ plan rest"]
    show ?thesis
      by (intro exI[of _ evs1]) (auto simp: entry plan_Cons)
  next
    case None
    obtain e2 s2 where c: "manageChildren m ctx options nr children s1 = (e2, s2)"
      by (cases "manageChildren m ctx options nr children s1")
    from manageChildren_walk[OF c] obtain evs2 where
      2: "calls s2 = calls s1 @ evs2" "walk evs2 e2 (present children)"
         "\<forall>a\<in>set (applied evs2). snd a = (ctx, applyOpts_of options nr)"
      by blast
    have a2: "\<forall>a\<in>set (applied evs2). apply_args_ok ctx options a"
      using 2(3) 1(4) by (auto simp: apply_args_ok_def applyOpts_of_def)
    from 1 2 None have w12: "walk (evs1 @ evs2) e2 (present [parent] @ present children)"
      by (intro walk_append) auto
    show ?thesis
    proof (cases e2)
      case (Some e)
      with Cons.prems u c entry None have "err = Some e" "s' = s2" by auto
      with w12 Some walk_failed[of "evs1 @ evs2" e "present [parent] @ present children" "plan rest"]
      have "walk (evs1 @ evs2) err (plan (entry # rest))"
        by (simp add: entry plan_Cons)
      with 1 2 a1 a2 \<open>s' = s2\<close> show ?thesis
        by (intro exI[of _ "evs1 @ evs2"]) (auto simp: applied_append)
    next
      case N2: None
      with Cons.prems u c entry None have "manageEntries m ctx options rest s2 = (err, s')"
        by simp
      from Cons.IH[OF this] obtain evs3 where
        3: "calls s' = calls s2 @ evs3" "walk evs3 err (plan rest)"
           "\<forall>a\<in>set (applied evs3). apply_args_ok ctx options a"
        by blast
      from w12 N2 have "walk (evs1 @ evs2) None (present [parent] @ present children)"
        by simp
      from walk_append[OF this 3(2)]
      have "walk ((evs1 @ evs2) @ evs3) err ((present [parent] @ present children) @ plan rest)" .
      then have "walk (evs1 @ evs2 @ evs3) err (plan (entry # rest))"
        by (simp add: entry plan_Cons)
      with 1 2 3 a1 a2 show ?thesis
        by (intro exI[of _ "evs1 @ evs2 @ evs3"]) (auto simp: applied_append)
    qed
  qed
qed

lemma events_ofI: "calls s' = calls s @ evs \<Longrightarrow> events_of s s' = evs"
  by (simp add: events_of_def)

lemma harvested_entries:
  "\<forall>ev\<in>set evs. post_succeeded ev \<Longrightarrow>
   harvested evs = map owner_of (filter nonfailed (fired_entries evs))"
proof (induction evs rule: fired_entries.induct)
  case (2 entry err r evs)
  then show ?case by (simp add: harvested_def)
qed (simp_all add: harvested_def)

lemma outcome_Some:
  "outcome evs = Some e \<Longrightarrow> \<exists>i. evs \<noteq> [] \<and> last evs = ApplyReturned i (Some e)"
  by (auto simp: outcome_def split: if_splits call.splits)

lemma sequential_failure_last:
  assumes "sequential evs c" "ApplyReturned i (Some e) \<in> set evs"
  shows "last evs = ApplyReturned i (Some e)"
  using assms
proof (induction evs c rule: sequential.induct)
  case (3 j err evs cur)
  then show ?case by (cases "evs = []") auto
qed auto

lemma call_Delete_events:
  assumes "call_Delete opr ctx deleteOptions s = (err, s')"
  shows "\<exists>fs. calls s' = calls s @ DeleteCalled (ident opr) ctx deleteOptions # fs
                 @ [DeleteReturned (ident opr) err] \<and> (\<forall>e\<in>set fs. is_Fired e)"
proof -
  let ?s1 = "s\<lparr>calls := calls s @ [DeleteCalled (ident opr) ctx deleteOptions]\<rparr>"
  let ?b = "Delete opr ctx (DeletionPropagation deleteOptions)
                (DryRun (DeleteOptions_Options deleteOptions)) (world (frame s))"
  obtain e2 s2 where r: "run (Callbacks (DeleteOptions_Options deleteOptions)) ?b ?s1 = (e2, s2)"
    by (cases "run (Callbacks (DeleteOptions_Options deleteOptions)) ?b ?s1")
  with assms have eq: "err = e2" "s' = s2\<lparr>calls := calls s2 @ [DeleteReturned (ident opr) e2]\<rparr>"
    by (auto simp: call_Delete_def)
  from run_events[OF r] obtain evs where "calls s2 = calls ?s1 @ evs" "\<forall>e\<in>set evs. is_Fired e"
    by auto
  with eq show ?thesis by (intro exI[of _ evs]) simp
qed

lemma fired_not_ApplyReturned: "\<forall>e\<in>set fs. is_Fired e \<Longrightarrow> ApplyReturned i e \<notin> set fs"
  by auto

lemma purgeEntries_events:
  "\<exists>evs. calls (purgeEntries deleteOptions forest s) = calls s @ evs \<and>
         deleted evs = map (\<lambda>opr. (ident opr, Background, deleteOptions)) (parents forest) \<and>
         applied evs = [] \<and> (\<forall>i e. ApplyReturned i e \<notin> set evs)"
proof (induction forest arbitrary: s)
  case Nil
  then show ?case by (simp add: parents_def)
next
  case (Cons entry rest)
  obtain parent children where entry: "entry = (parent, children)" by (cases entry)
  show ?case
  proof (cases parent)
    case None
    with Cons.IH[of s] entry show ?thesis by (simp add: parents_def)
  next
    case (Some opr)
    obtain e1 s1 where d: "call_Delete opr Background deleteOptions s = (e1, s1)"
      by (cases "call_Delete opr Background deleteOptions s")
    from call_Delete_events[OF d] obtain fs where
      1: "calls s1 = calls s @ DeleteCalled (ident opr) Background deleteOptions # fs
                 @ [DeleteReturned (ident opr) e1]" "\<forall>e\<in>set fs. is_Fired e"
      by blast
    from Cons.IH[of s1] obtain evs where
      2: "calls (purgeEntries deleteOptions rest s1) = calls s1 @ evs"
         "deleted evs = map (\<lambda>opr. (ident opr, Background, deleteOptions)) (parents rest)"
         "applied evs = []" "\<forall>i e. ApplyReturned i e \<notin> set evs"
      by blast
    have p: "purgeEntries deleteOptions (entry # rest) s = purgeEntries deleteOptions rest s1"
      using entry Some d by simp
    have ps: "parents (entry # rest) = opr # parents rest"
      using entry Some by (simp add: parents_def)
    show ?thesis
      unfolding p ps
      by (rule exI[of _ "DeleteCalled (ident opr) Background deleteOptions # fs
                 @ [DeleteReturned (ident opr) e1] @ evs"])
         (use 1 2 fired_not_ApplyReturned[OF 1(2)] in
           \<open>simp add: deleted_append applied_append deleted_fired applied_fired\<close>)
  qed
qed

lemma purgeParents_events:
  "\<exists>evs. calls (purgeParents m options order s) = calls s @ evs \<and>
         deleted evs = map (\<lambda>opr. (ident opr, Background, purge_options options)) (parents order) \<and>
         applied evs = [] \<and> (\<forall>i e. ApplyReturned i e \<notin> set evs)"
  using purgeEntries_events[of "purge_options options" order s]
  by (simp add: purgeParents_def purge_options_def)

lemma caller_callbacks_act:
  "list_all2 (\<lambda>cb cb0. \<forall>v e f. cb v e f = (case cb0 v e (world f) of (r, w') \<Rightarrow> (r, f\<lparr>world := w'\<rparr>)))
     (map caller_callback cs) cs"
  by (induction cs) (simp_all add: caller_callback_app)

lemma count_list_permuted:
  assumes "distinct xs" "mset ys = mset xs" "x \<in> set xs"
  shows "count_list ys x = 1"
proof -
  from assms(1,2) have "distinct ys" by (metis mset_eq_imp_distinct_iff)
  moreover from assms(2,3) have "x \<in> set ys" by (metis mset_eq_setD)
  ultimately show ?thesis by (induction ys) auto
qed

lemma manageOperators_events:
  assumes "manageOperators m ctx options s = (err, s')"
  shows "\<exists>evs. calls s' = calls s @ evs \<and> walk evs err (plan (operators m)) \<and>
         (\<forall>a\<in>set (applied evs). apply_args_ok ctx options a)"
  using assms manageEntries_walk unfolding manageOperators_def by blast

lemma harvest_not_caller: "harvest \<noteq> caller_callback (cb :: 'w Callback)"
proof
  assume h: "harvest = caller_callback cb"
  let ?entry = "\<lparr>StatusType = StatusTypeApplied, GetAPIVersion = [], GetKind = [], GetName = [], GetUID = []\<rparr>"
  let ?f = "\<lparr>world = undefined :: 'w, newRefs = []\<rparr>"
  have "newRefs (snd (harvest (StatusEntry ?entry) None ?f)) \<noteq> []"
    by (simp add: harvest_def)
  moreover have "newRefs (snd (caller_callback cb (StatusEntry ?entry) None ?f)) = []"
    by (simp add: caller_callback_app split: prod.splits)
  ultimately show False using h by simp
qed

lemma harvest_not_in_caller_callbacks:
  "harvest \<notin> set (Pre (caller_callbacks C)) \<and> harvest \<notin> set (Post (caller_callbacks C))"
  using harvest_not_caller by (auto simp: caller_callbacks_def)

lemma count_list_distinct: "distinct xs \<Longrightarrow> x \<in> set xs \<Longrightarrow> count_list xs x = 1"
  by (induction xs) auto

lemma harvested_block:
  "harvested (ApplyCalled i ctx opts # fs @ [ApplyReturned i err]) = harvested fs"
  by (simp add: harvested_def)

lemma mset_concat_map:
  "mset (concat (map f xs)) = (\<Sum>x\<in>#mset xs. mset (f x))"
  by (induction xs) auto

lemma parents_mset:
  "mset order = mset forest \<Longrightarrow> mset (parents order) = mset (parents forest)"
  by (simp add: parents_def mset_concat_map)

section \<open>Claims about the manager\<close>

lemmas ex_defs = example_state_def example_options_def example_manager_def example_quiet_manager_def example_child_def
  example_purge_order_def
  example_failing_child_def example_parent_def entryA_def entryB_def
  manageOperators_def useOperator_def call_Apply_def call_Delete_def Do_def purgeParents_def
  chain_def caller_callbacks_def ownerReferenceCallback_def harvest_def getDryRunFlag_def
  events_of_def plan_def present_def parents_def Let_def

text \<open>
  Claim C1. Without \<open>SetOwnerReferences\<close>, every \<open>Apply\<close> the manager issues, for parents
  and children alike, carries the empty owner-reference list, whatever the parent did.
  With \<open>SetOwnerReferences\<close>, at any entry of the forest walk: when the parent's apply
  succeeds and each of its \<open>N\<close> Post firings went through the chain without an error,
  the references handed on are the identities of the \<open>M\<close> fired entries whose status is
  not failed, in firing order, and every \<open>Apply\<close> issued for a child of that parent
  receives exactly this list.
\<close>

theorem owner_references_reach_children:
  fixes m :: "'w manager"
  shows "(\<not> SetOwnerReferences options \<and> manageOperators m ctx options s = (err, s') \<longrightarrow>
            (\<forall>a\<in>set (applied (events_of s s')). OwnerReferences (snd (snd a)) = [])) \<and>
         (SetOwnerReferences options \<and>
          useOperator m ctx (Some parent) options [] s = ((references, None), s1) \<and>
          (\<forall>ev\<in>set (events_of s s1). post_succeeded ev) \<longrightarrow>
            references = map owner_of (filter nonfailed (fired_entries (events_of s s1))) \<and>
            (\<forall>children rest.
               manageEntries m ctx options ((Some parent, children) # rest) s =
               (case manageChildren m ctx options references children s1 of
                  (Some e, s2) \<Rightarrow> (Some e, s2)
                | (None, s2) \<Rightarrow> manageEntries m ctx options rest s2)) \<and>
            (\<forall>children err2 s2. manageChildren m ctx options references children s1 = (err2, s2) \<longrightarrow>
               (\<forall>a\<in>set (applied (events_of s1 s2)). OwnerReferences (snd (snd a)) = references) \<and>
               prefix (map fst (applied (events_of s1 s2))) (present children) \<and>
               (err2 = None \<longrightarrow> map fst (applied (events_of s1 s2)) = present children)))"
proof (intro conjI impI)
  assume a: "\<not> SetOwnerReferences options \<and> manageOperators m ctx options s = (err, s')"
  then have "manageOperators m ctx options s = (err, s')" by simp
  from manageOperators_events[OF this] obtain evs where
    "calls s' = calls s @ evs" "\<forall>a\<in>set (applied evs). apply_args_ok ctx options a"
    by blast
  with a show "\<forall>a\<in>set (applied (events_of s s')). OwnerReferences (snd (snd a)) = []"
    by (simp add: events_of_def apply_args_ok_def)
next
  assume b: "SetOwnerReferences options \<and>
          useOperator m ctx (Some parent) options [] s = ((references, None), s1) \<and>
          (\<forall>ev\<in>set (events_of s s1). post_succeeded ev)"
  then have u: "useOperator m ctx (Some parent) options [] s = ((references, None), s1)" by simp
  from useOperator_some[OF u] b obtain fs where
    fs: "calls s1 = calls s @ ApplyCalled (ident parent) ctx (applyOpts_of options []) # fs
                 @ [ApplyReturned (ident parent) None]"
        "references = harvested fs"
    by auto
  let ?evs = "ApplyCalled (ident parent) ctx (applyOpts_of options []) # fs
                 @ [ApplyReturned (ident parent) None]"
  have e: "events_of s s1 = ?evs" using fs(1) by (simp add: events_of_def)
  have "harvested ?evs = map owner_of (filter nonfailed (fired_entries ?evs))"
    using b unfolding e by (intro harvested_entries) simp
  then show "references = map owner_of (filter nonfailed (fired_entries (events_of s s1)))"
    unfolding e fs(2) harvested_block .
next
  assume "SetOwnerReferences options \<and>
          useOperator m ctx (Some parent) options [] s = ((references, None), s1) \<and>
          (\<forall>ev\<in>set (events_of s s1). post_succeeded ev)"
  then show "\<forall>children rest.
               manageEntries m ctx options ((Some parent, children) # rest) s =
               (case manageChildren m ctx options references children s1 of
                  (Some e, s2) \<Rightarrow> (Some e, s2)
                | (None, s2) \<Rightarrow> manageEntries m ctx options rest s2)"
    by simp
next
  show "\<forall>children err2 s2. manageChildren m ctx options references children s1 = (err2, s2) \<longrightarrow>
               (\<forall>a\<in>set (applied (events_of s1 s2)). OwnerReferences (snd (snd a)) = references) \<and>
               prefix (map fst (applied (events_of s1 s2))) (present children) \<and>
               (err2 = None \<longrightarrow> map fst (applied (events_of s1 s2)) = present children)"
  proof (intro allI impI)
    fix children err2 s2
    assume "manageChildren m ctx options references children s1 = (err2, s2)"
    from manageChildren_walk[OF this] obtain evs where
      evs: "calls s2 = calls s1 @ evs" "walk evs err2 (present children)"
         "\<forall>a\<in>set (applied evs). snd a = (ctx, applyOpts_of options references)"
      by blast
    have e: "events_of s1 s2 = evs" using evs(1) by (simp add: events_of_def)
    from evs(2,3) show "(\<forall>a\<in>set (applied (events_of s1 s2)). OwnerReferences (snd (snd a)) = references) \<and>
               prefix (map fst (applied (events_of s1 s2))) (present children) \<and>
               (err2 = None \<longrightarrow> map fst (applied (events_of s1 s2)) = present children)"
      unfolding e by (auto simp: walk_def applyOpts_of_def)
  qed
qed

theorem owner_references_reach_children_witness:
  "map (\<lambda>a. (fst a, OwnerReferences (snd (snd a))))
     (applied (events_of example_state
      (snd (manageOperators example_quiet_manager (CallerContext False) (example_options StopOnError False) example_state))))
     = [(1, []), (3, [])] \<and>
   fst (useOperator example_quiet_manager (CallerContext False) (Some example_parent)
          (example_options StopOnError True) [] example_state)
     = ([\<lparr>APIVersion = ''v1'', Kind = ''Function'', Name = ''a'', UID = ''u1''\<rparr>], None) \<and>
   fired_entries (events_of example_state
      (snd (useOperator example_quiet_manager (CallerContext False) (Some example_parent)
          (example_options StopOnError True) [] example_state))) = [entryA, entryB] \<and>
   map (\<lambda>a. (fst a, OwnerReferences (snd (snd a))))
     (applied (events_of example_state
      (snd (manageOperators example_quiet_manager (CallerContext False) (example_options StopOnError True) example_state))))
     = [(1, []), (3, [\<lparr>APIVersion = ''v1'', Kind = ''Function'', Name = ''a'', UID = ''u1''\<rparr>])]"
  using owner_references_reach_children [where options = "example_options StopOnError False"
          and m = example_quiet_manager and ctx = "CallerContext False" and s = example_state
          and err = "fst (manageOperators example_quiet_manager (CallerContext False) (example_options StopOnError False) example_state)"
          and s' = "snd (manageOperators example_quiet_manager (CallerContext False) (example_options StopOnError False) example_state)"
          and parent = example_parent and references = "[]" and ?s1.0 = example_state]
        owner_references_reach_children [where options = "example_options StopOnError True"
          and m = example_quiet_manager and ctx = "CallerContext False" and s = example_state
          and err = None and s' = example_state and parent = example_parent
          and references = "[\<lparr>APIVersion = ''v1'', Kind = ''Function'', Name = ''a'', UID = ''u1''\<rparr>]"
          and ?s1.0 = "snd (useOperator example_quiet_manager (CallerContext False) (Some example_parent)
          (example_options StopOnError True) [] example_state)"]
  by (simp add: ex_defs caller_callback_app)

text \<open>
  Claim C2. \<open>Do\<close> returns the error of \<open>manageOperators\<close>, which is the error of the one
  apply that failed: any apply that returned an error returned the result of \<open>Do\<close>, and a
  result that is an error was returned by an apply. Under \<open>PurgeOnError\<close> the final state
  is that of the purge run after the failure, in whatever order it visits the entries,
  while the result is still the apply's error; under \<open>StopOnError\<close> no \<open>Delete\<close> is issued
  and nothing happens after the failure.
\<close>

theorem Do_returns_triggering_error:
  fixes m :: "'w manager"
  assumes "Do m ctx options order s = (result, s')"
  shows "result = fst (manageOperators m ctx options s) \<and>
         (\<forall>i e. ApplyReturned i (Some e) \<in> set (events_of s s') \<longrightarrow> result = Some e) \<and>
         (\<forall>e. result = Some e \<longrightarrow> (\<exists>i. ApplyReturned i (Some e) \<in> set (events_of s s'))) \<and>
         (OnError options = PurgeOnError \<and> result \<noteq> None \<longrightarrow>
            s' = purgeParents m options order (snd (manageOperators m ctx options s))) \<and>
         (OnError options = StopOnError \<longrightarrow>
            deleted (events_of s s') = [] \<and> s' = snd (manageOperators m ctx options s))"
proof -
  define evs where "evs = events_of s s'"
  have Do_eq: "fst (Do m ctx options order s) = result" "snd (Do m ctx options order s) = s'"
    using assms by simp_all
  obtain err s1 where mo: "manageOperators m ctx options s = (err, s1)"
    by (cases "manageOperators m ctx options s")
  from manageOperators_events[OF mo] obtain evs1 where
    1: "calls s1 = calls s @ evs1" "walk evs1 err (plan (operators m))"
    by blast
  from purgeParents_events[of m options order s1] obtain evs2 where
    2: "calls (purgeParents m options order s1) = calls s1 @ evs2"
       "\<forall>i e. ApplyReturned i e \<notin> set evs2"
    by blast
  have seq: "sequential evs1 None" and out: "outcome evs1 = err" and del: "deleted evs1 = []"
    using 1(2) by (simp_all add: walk_def)
  have fstDo: "fst (Do m ctx options order s) = err"
    using mo by (cases err) (simp_all add: Do_def)
  have evs_cases: "evs = evs1 \<or> (evs = evs1 @ evs2)"
    using mo 1 2 Do_eq by (cases err) (auto simp: evs_def Do_def events_of_def)
  have a: "\<forall>i e. ApplyReturned i (Some e) \<in> set evs \<longrightarrow> err = Some e"
  proof (intro allI impI)
    fix i e assume "ApplyReturned i (Some e) \<in> set evs"
    with evs_cases 2(2) have "ApplyReturned i (Some e) \<in> set evs1" by auto
    with sequential_failure[OF seq] out show "err = Some e" by simp
  qed
  have b: "\<forall>e. err = Some e \<longrightarrow> (\<exists>i. ApplyReturned i (Some e) \<in> set evs)"
  proof (intro allI impI)
    fix e assume "err = Some e"
    with out outcome_Some obtain i where "evs1 \<noteq> []" "last evs1 = ApplyReturned i (Some e)"
      by blast
    then have "ApplyReturned i (Some e) \<in> set evs1" using last_in_set by metis
    with evs_cases show "\<exists>i. ApplyReturned i (Some e) \<in> set evs" by auto
  qed
  have c: "OnError options = PurgeOnError \<and> err \<noteq> None \<longrightarrow> s' = purgeParents m options order s1"
    using mo Do_eq(2) by (auto simp: Do_def)
  have s1: "OnError options = StopOnError \<longrightarrow> s' = s1"
    using mo Do_eq(2) by (cases err) (auto simp: Do_def)
  then have d: "OnError options = StopOnError \<longrightarrow> deleted evs = [] \<and> s' = s1"
    using 1(1) del by (simp add: evs_def events_of_def)
  have r: "result = err" using fstDo Do_eq(1) by simp
  have m1: "fst (manageOperators m ctx options s) = err" "snd (manageOperators m ctx options s) = s1"
    using mo by simp_all
  show ?thesis
    unfolding r m1 using a b c d unfolding evs_def by blast
qed

theorem Do_returns_triggering_error_witness:
  "fst (Do example_manager (CallerContext False) (example_options PurgeOnError True) example_purge_order example_state)
     = Some (errors_New ''child failed'') \<and>
   ApplyReturned 2 (Some (errors_New ''child failed''))
     \<in> set (events_of example_state
          (snd (Do example_manager (CallerContext False) (example_options PurgeOnError True) example_purge_order example_state))) \<and>
   DeleteReturned 1 (Some (errors_New ''delete failed''))
     \<in> set (events_of example_state
          (snd (Do example_manager (CallerContext False) (example_options PurgeOnError True) example_purge_order example_state))) \<and>
   fst (Do example_manager (CallerContext False) (example_options StopOnError True) example_purge_order example_state)
     = Some (errors_New ''child failed'') \<and>
   deleted (events_of example_state
      (snd (Do example_manager (CallerContext False) (example_options StopOnError True) example_purge_order example_state))) = []"
  using Do_returns_triggering_error [of example_manager "CallerContext False"
          "example_options PurgeOnError True" example_purge_order example_state
          "fst (Do example_manager (CallerContext False) (example_options PurgeOnError True) example_purge_order example_state)"
          "snd (Do example_manager (CallerContext False) (example_options PurgeOnError True) example_purge_order example_state)"]
        Do_returns_triggering_error [of example_manager "CallerContext False"
          "example_options StopOnError True" example_purge_order example_state
          "fst (Do example_manager (CallerContext False) (example_options StopOnError True) example_purge_order example_state)"
          "snd (Do example_manager (CallerContext False) (example_options StopOnError True) example_purge_order example_state)"]
  by (simp add: ex_defs caller_callback_app)

text \<open>
  Claim C3. In the events of one forest walk every \<open>Apply\<close> returns before the next one is
  called, an \<open>Apply\<close> that returns an error is the last event, and the operators applied
  are an initial segment of the forest in its order (each parent, then its children in
  list order), the whole forest when the walk succeeds. Hence a child is applied only
  after its parent has returned without error.
\<close>

theorem manageOperators_order:
  fixes m :: "'w manager"
  assumes mo: "manageOperators m ctx options s = (err, s1)"
  shows "sequential (events_of s s1) None \<and>
         prefix (map fst (applied (events_of s s1))) (plan (operators m)) \<and>
         (err = None \<longrightarrow> map fst (applied (events_of s s1)) = plan (operators m)) \<and>
         (\<forall>i e. ApplyReturned i (Some e) \<in> set (events_of s s1) \<longrightarrow>
            last (events_of s s1) = ApplyReturned i (Some e) \<and> err = Some e)"
proof -
  from manageOperators_events[OF mo] obtain evs1 where
    1: "calls s1 = calls s @ evs1" "walk evs1 err (plan (operators m))"
    by blast
  have e: "events_of s s1 = evs1" using 1 by (simp add: events_of_def)
  from 1(2) have w: "sequential evs1 None" "outcome evs1 = err"
    "prefix (map fst (applied evs1)) (plan (operators m))"
    "err = None \<longrightarrow> map fst (applied evs1) = plan (operators m)"
    by (simp_all add: walk_def)
  have "\<forall>i e. ApplyReturned i (Some e) \<in> set evs1 \<longrightarrow>
            last evs1 = ApplyReturned i (Some e) \<and> err = Some e"
    using sequential_failure[OF w(1)] sequential_failure_last[OF w(1)] w(2) by auto
  with w mo show ?thesis unfolding e by simp
qed

theorem manageOperators_order_witness:
  "fst (manageOperators example_manager (CallerContext False) (example_options StopOnError True) example_state)
     = Some (errors_New ''child failed'') \<and>
   plan (operators example_manager) = [1, 2, 3] \<and>
   map fst (applied (events_of example_state
      (snd (manageOperators example_manager (CallerContext False) (example_options StopOnError True) example_state))))
     = [1, 2] \<and>
   last (events_of example_state
      (snd (manageOperators example_manager (CallerContext False) (example_options StopOnError True) example_state)))
     = ApplyReturned 2 (Some (errors_New ''child failed'')) \<and>
   fst (manageOperators example_quiet_manager (CallerContext False) (example_options StopOnError True) example_state)
     = None \<and>
   map fst (applied (events_of example_state
      (snd (manageOperators example_quiet_manager (CallerContext False) (example_options StopOnError True) example_state))))
     = [1, 3] \<and>
   sequential (events_of example_state
      (snd (manageOperators example_quiet_manager (CallerContext False) (example_options StopOnError True) example_state)))
     None"
  using manageOperators_order [of example_manager "CallerContext False"
          "example_options StopOnError True" example_state
          "fst (manageOperators example_manager (CallerContext False) (example_options StopOnError True) example_state)"
          "snd (manageOperators example_manager (CallerContext False) (example_options StopOnError True) example_state)"]
        manageOperators_order [of example_quiet_manager "CallerContext False"
          "example_options StopOnError True" example_state
          "fst (manageOperators example_quiet_manager (CallerContext False) (example_options StopOnError True) example_state)"
          "snd (manageOperators example_quiet_manager (CallerContext False) (example_options StopOnError True) example_state)"]
  by (simp add: ex_defs caller_callback_app)

text \<open>
  Claim C4. After a failure under \<open>PurgeOnError\<close>, in whatever order the purge's own
  iteration visits the entries of the map: the purge issues one \<open>Delete\<close> per entry with a
  non-nil parent, in that order, and nothing else (no \<open>Apply\<close>, no child), and the operators
  deleted are the non-nil parents of the forest, each exactly once when they are distinct
  map keys. Each \<open>Delete\<close> gets the background context, foreground propagation, the
  dry-run flags that every \<open>Apply\<close> got, and callback lists that are, position by
  position, the caller's Pre and Post callbacks acting on the world, without the
  harvesting callback. The result of \<open>Do\<close> is the error of the walk: what the deletes
  return goes nowhere.
\<close>

theorem purge_deletes_every_parent:
  fixes m :: "'w manager"
  assumes "OnError options = PurgeOnError"
    and "manageOperators m ctx options s = (Some err, s1)"
    and "mset order = mset (operators m)"
    and "evs = events_of s1 (purgeParents m options order s1)"
  shows "Do m ctx options order s = (Some err, purgeParents m options order s1) \<and>
         map fst (deleted evs) = map ident (parents order) \<and>
         mset (parents order) = mset (parents (operators m)) \<and>
         applied evs = [] \<and>
         (\<forall>a\<in>set (deleted evs).
            fst (snd a) = Background \<and>
            DeletionPropagation (snd (snd a)) = DeletePropagationForeground \<and>
            DryRun (DeleteOptions_Options (snd (snd a))) = getDryRunFlag (options_DryRun options) \<and>
            list_all2 (\<lambda>cb cb0. \<forall>v e f. cb v e f = (case cb0 v e (world f) of (r, w') \<Rightarrow> (r, f\<lparr>world := w'\<rparr>)))
              (Pre (Callbacks (DeleteOptions_Options (snd (snd a))))) (Pre (options_Callbacks options)) \<and>
            list_all2 (\<lambda>cb cb0. \<forall>v e f. cb v e f = (case cb0 v e (world f) of (r, w') \<Rightarrow> (r, f\<lparr>world := w'\<rparr>)))
              (Post (Callbacks (DeleteOptions_Options (snd (snd a))))) (Post (options_Callbacks options)) \<and>
            harvest \<notin> set (Post (Callbacks (DeleteOptions_Options (snd (snd a)))))) \<and>
         (\<forall>a\<in>set (applied (events_of s s1)).
            DryRun (Options (snd (snd a))) = getDryRunFlag (options_DryRun options)) \<and>
         \<not> cancelled Background \<and>
         (distinct (map ident (parents (operators m))) \<longrightarrow>
            (\<forall>opr\<in>set (parents (operators m)). count_list (map fst (deleted evs)) (ident opr) = 1))"
proof -
  from purgeParents_events[of m options order s1] obtain evs2 where
    2: "calls (purgeParents m options order s1) = calls s1 @ evs2"
       "deleted evs2 = map (\<lambda>opr. (ident opr, Background, purge_options options)) (parents order)"
       "applied evs2 = []"
    by blast
  have e: "evs = evs2" using 2(1) assms(4) by (simp add: events_of_def)
  from manageOperators_events[OF assms(2)] obtain evs1 where
    1: "calls s1 = calls s @ evs1" "\<forall>a\<in>set (applied evs1). apply_args_ok ctx options a"
    by blast
  have e1: "events_of s s1 = evs1" using 1(1) by (simp add: events_of_def)
  have c1: "Do m ctx options order s = (Some err, purgeParents m options order s1)"
    using assms(1,2) by (simp add: Do_def)
  have c2: "map fst (deleted evs2) = map ident (parents order)"
    using 2(2) by (simp add: comp_def)
  have c3: "mset (parents order) = mset (parents (operators m))"
    by (rule parents_mset[OF assms(3)])
  have c4: "applied evs2 = []"
    by (rule 2(3))
  have pre: "list_all2 (\<lambda>cb cb0. \<forall>v e f. cb v e f = (case cb0 v e (world f) of (r, w') \<Rightarrow> (r, f\<lparr>world := w'\<rparr>)))
               (Pre (caller_callbacks (options_Callbacks options))) (Pre (options_Callbacks options))"
    and post: "list_all2 (\<lambda>cb cb0. \<forall>v e f. cb v e f = (case cb0 v e (world f) of (r, w') \<Rightarrow> (r, f\<lparr>world := w'\<rparr>)))
               (Post (caller_callbacks (options_Callbacks options))) (Post (options_Callbacks options))"
    using caller_callbacks_act by (simp_all add: caller_callbacks_def)
  have c5: "(\<forall>a\<in>set (deleted evs2).
            fst (snd a) = Background \<and>
            DeletionPropagation (snd (snd a)) = DeletePropagationForeground \<and>
            DryRun (DeleteOptions_Options (snd (snd a))) = getDryRunFlag (options_DryRun options) \<and>
            list_all2 (\<lambda>cb cb0. \<forall>v e f. cb v e f = (case cb0 v e (world f) of (r, w') \<Rightarrow> (r, f\<lparr>world := w'\<rparr>)))
              (Pre (Callbacks (DeleteOptions_Options (snd (snd a))))) (Pre (options_Callbacks options)) \<and>
            list_all2 (\<lambda>cb cb0. \<forall>v e f. cb v e f = (case cb0 v e (world f) of (r, w') \<Rightarrow> (r, f\<lparr>world := w'\<rparr>)))
              (Post (Callbacks (DeleteOptions_Options (snd (snd a))))) (Post (options_Callbacks options)) \<and>
            harvest \<notin> set (Post (Callbacks (DeleteOptions_Options (snd (snd a))))))"
  proof
    fix a assume "a \<in> set (deleted evs2)"
    with 2(2) have a: "snd a = (Background, purge_options options)" by auto
    have p: "DeletionPropagation (purge_options options) = DeletePropagationForeground"
      "DryRun (DeleteOptions_Options (purge_options options)) = getDryRunFlag (options_DryRun options)"
      "Callbacks (DeleteOptions_Options (purge_options options)) = caller_callbacks (options_Callbacks options)"
      by (simp_all add: purge_options_def)
    show "fst (snd a) = Background \<and>
            DeletionPropagation (snd (snd a)) = DeletePropagationForeground \<and>
            DryRun (DeleteOptions_Options (snd (snd a))) = getDryRunFlag (options_DryRun options) \<and>
            list_all2 (\<lambda>cb cb0. \<forall>v e f. cb v e f = (case cb0 v e (world f) of (r, w') \<Rightarrow> (r, f\<lparr>world := w'\<rparr>)))
              (Pre (Callbacks (DeleteOptions_Options (snd (snd a))))) (Pre (options_Callbacks options)) \<and>
            list_all2 (\<lambda>cb cb0. \<forall>v e f. cb v e f = (case cb0 v e (world f) of (r, w') \<Rightarrow> (r, f\<lparr>world := w'\<rparr>)))
              (Post (Callbacks (DeleteOptions_Options (snd (snd a))))) (Post (options_Callbacks options)) \<and>
            harvest \<notin> set (Post (Callbacks (DeleteOptions_Options (snd (snd a)))))"
      unfolding a snd_conv fst_conv p
      using pre post harvest_not_in_caller_callbacks[of "options_Callbacks options"] by blast
  qed
  have c6: "(\<forall>a\<in>set (applied evs1).
            DryRun (Options (snd (snd a))) = getDryRunFlag (options_DryRun options))"
    using 1(2) by (simp add: apply_args_ok_def)
  have c7: "\<not> cancelled Background"
    by simp
  have c8: "(distinct (map ident (parents (operators m))) \<longrightarrow>
            (\<forall>opr\<in>set (parents (operators m)). count_list (map fst (deleted evs2)) (ident opr) = 1))"
  proof (intro impI ballI)
    fix opr
    assume d: "distinct (map ident (parents (operators m)))" and o: "opr \<in> set (parents (operators m))"
    from c3 have "mset (map ident (parents order)) = mset (map ident (parents (operators m)))"
      by (metis mset_map)
    from count_list_permuted[OF d this] o
    show "count_list (map fst (deleted evs2)) (ident opr) = 1"
      unfolding c2 by simp
  qed
  show ?thesis
    unfolding e e1 by (intro conjI) (fact c1 c2 c3 c4 c5 c6 c7 c8)+
qed

theorem purge_deletes_every_parent_witness:
  "OnError (example_options PurgeOnError True) = PurgeOnError \<and>
   fst (manageOperators example_manager (CallerContext True) (example_options PurgeOnError True) example_state)
     = Some (errors_New ''child failed'') \<and>
   example_purge_order = [(None, []), (Some example_parent, [Some example_failing_child, Some example_child])] \<and>
   map fst (deleted (events_of
      (snd (manageOperators example_manager (CallerContext True) (example_options PurgeOnError True) example_state))
      (purgeParents example_manager (example_options PurgeOnError True) example_purge_order
        (snd (manageOperators example_manager (CallerContext True) (example_options PurgeOnError True) example_state)))))
     = [1] \<and>
   map (\<lambda>a. (fst (snd a), DeletionPropagation (snd (snd a)), DryRun (DeleteOptions_Options (snd (snd a)))))
     (deleted (events_of
      (snd (manageOperators example_manager (CallerContext True) (example_options PurgeOnError True) example_state))
      (purgeParents example_manager (example_options PurgeOnError True) example_purge_order
        (snd (manageOperators example_manager (CallerContext True) (example_options PurgeOnError True) example_state)))))
     = [(Background, DeletePropagationForeground, [DryRunAll])] \<and>
   world (frame (snd (manageOperators example_manager (CallerContext True)
      (example_options PurgeOnError True) example_state))) = 22 \<and>
   world (frame (snd (Do example_manager (CallerContext True) (example_options PurgeOnError True)
      example_purge_order example_state))) = 132 \<and>
   fst (Do example_manager (CallerContext True) (example_options PurgeOnError True) example_purge_order example_state)
     = Some (errors_New ''child failed'')"
proof -
  let ?s1 = "snd (manageOperators example_manager (CallerContext True) (example_options PurgeOnError True) example_state)"
  have h1: "OnError (example_options PurgeOnError True) = PurgeOnError"
    by (simp add: example_options_def)
  have h2: "manageOperators example_manager (CallerContext True) (example_options PurgeOnError True) example_state
              = (Some (errors_New ''child failed''), ?s1)"
    by (simp add: ex_defs caller_callback_app)
  have h3: "mset example_purge_order = mset (operators example_manager)"
    by (simp add: example_purge_order_def)
  note purged = purge_deletes_every_parent [OF h1 h2 h3 refl]
  show ?thesis
    using h1 h2 purged [THEN conjunct1] purged [THEN conjunct2, THEN conjunct1]
    by (simp add: ex_defs caller_callback_app)
qed

text \<open>
  Claim C6. The callback that \<open>ownerReferenceCallback\<close> appends to the Post chain: on a
  status entry with an error, or with status \<open>ApplyFailed\<close> or \<open>DeleteFailed\<close>, it leaves
  the accumulator alone and returns the error it received; on a value that is not a status
  entry it returns an error of its own; on a status entry without error and with another
  status it appends the entry's identity and returns no error.
\<close>

theorem harvest_callback_cases:
  fixes f :: "'w frame" and callbacks :: "'w frame Callbacks"
  assumes "cb = last (Post (ownerReferenceCallback callbacks (Some NewRefsPtr)))"
  shows "((err \<noteq> None \<or> StatusType entry = StatusTypeApplyFailed \<or> StatusType entry = StatusTypeDeleteFailed)
            \<longrightarrow> cb (StatusEntry entry) err f = (err, f)) \<and>
         ((\<forall>entry'. v \<noteq> StatusEntry entry')
            \<longrightarrow> cb v err f = (Some (errors_New ''can't parse interface{} to StatusEntry interface''), f)) \<and>
         (StatusType entry \<noteq> StatusTypeApplyFailed \<and> StatusType entry \<noteq> StatusTypeDeleteFailed
            \<longrightarrow> cb (StatusEntry entry) None f =
                 (None, f\<lparr>newRefs := newRefs f @
                    [\<lparr>APIVersion = GetAPIVersion entry, Kind = GetKind entry,
                      Name = GetName entry, UID = GetUID entry\<rparr>]\<rparr>))"
proof -
  have cb: "cb = harvest" using assms by (simp add: ownerReferenceCallback_def)
  show ?thesis unfolding cb
    by (cases v) (auto simp: harvest_def)
qed

theorem harvest_callback_cases_witness:
  "harvest (StatusEntry entryB) (Some (errors_New ''remote'')) \<lparr>world = 0::nat, newRefs = []\<rparr>
     = (Some (errors_New ''remote''), \<lparr>world = 0, newRefs = []\<rparr>) \<and>
   harvest (OtherValue ''x'') None \<lparr>world = 0::nat, newRefs = []\<rparr>
     = (Some (errors_New ''can't parse interface{} to StatusEntry interface''), \<lparr>world = 0, newRefs = []\<rparr>) \<and>
   harvest (StatusEntry entryA) None \<lparr>world = 0::nat, newRefs = []\<rparr>
     = (None, \<lparr>world = 0, newRefs = [\<lparr>APIVersion = ''v1'', Kind = ''Function'', Name = ''a'', UID = ''u1''\<rparr>]\<rparr>)"
  using harvest_callback_cases [where cb = harvest and callbacks = "\<lparr>Pre = [], Post = []\<rparr>"
          and err = "Some (errors_New ''remote'')" and entry = entryB and v = "OtherValue ''x''"
          and f = "\<lparr>world = 0::nat, newRefs = []\<rparr>"]
        harvest_callback_cases [where cb = harvest and callbacks = "\<lparr>Pre = [], Post = []\<rparr>"
          and err = None and entry = entryA and v = "OtherValue ''x''"
          and f = "\<lparr>world = 0::nat, newRefs = []\<rparr>"]
  by (simp add: ownerReferenceCallback_def entryA_def entryB_def)

section \<open>Lemmas about the linked-items operator\<close>

lemma fireCallbacks_error:
  "fireCallbacks v (Some e) cbs st = (r, st') \<Longrightarrow> r \<noteq> None"
proof (induction cbs arbitrary: st)
  case Nil
  then show ?case by auto
next
  case (Cons cb cbs)
  obtain r0 st0 where c: "cb v (Some e) st = (r0, st0)" by (cases "cb v (Some e) st")
  with Cons show ?case by (cases r0) auto
qed

lemma fireCallbacks_keeps:
  "\<forall>cb\<in>set cbs. keeps_item cb \<Longrightarrow> fireCallbacks v err cbs st = (r, st') \<Longrightarrow>
   u st' = u st \<and> heap st' = heap st"
proof (induction cbs arbitrary: st)
  case Nil
  then show ?case by auto
next
  case (Cons cb cbs)
  obtain r0 st0 where c: "cb v err st = (r0, st0)" by (cases "cb v err st")
  from Cons.prems(1) have k: "u (snd (cb v err st)) = u st \<and> heap (snd (cb v err st)) = heap st"
    by (simp add: keeps_item_def)
  show ?case
  proof (cases r0)
    case None
    with Cons.prems c have "fireCallbacks v err cbs st0 = (r, st')" by simp
    with Cons.IH[of st0] Cons.prems(1) have "u st' = u st0 \<and> heap st' = heap st0" by simp
    with k c show ?thesis by simp
  next
    case (Some a)
    with Cons.prems c k show ?thesis by auto
  qed
qed

lemma stamp_content:
  "content
     (SetLabels (mergeMap (GetLabels (SetOwnerReferences_u references (st\<lparr>u := item\<rparr>)))
                   (Some [message \<mapsto> ownerID]))
        (SetOwnerReferences_u references (st\<lparr>u := item\<rparr>)))
     (u (SetLabels (mergeMap (GetLabels (SetOwnerReferences_u references (st\<lparr>u := item\<rparr>)))
                   (Some [message \<mapsto> ownerID]))
        (SetOwnerReferences_u references (st\<lparr>u := item\<rparr>))))
   = Some (stamped st item references ownerID)"
  by (cases "Object item")
     (auto simp: SetOwnerReferences_u_def SetLabels_def setNestedField_def mergeMap_def
        GetLabels_def content_def stamped_def empty_object_def Let_def
        split: option.splits)

lemma prepare_trace: "trace (prepare references ownerID item s) = trace s"
  by (simp add: prepare_def on_store_def Let_def)

lemma prepare_content:
  "content (store (prepare references ownerID item s)) (u (store (prepare references ownerID item s)))
   = Some (stamped (store s) item references ownerID)"
  using stamp_content[where references = references and st = "store s" and item = item and ownerID = ownerID]
  by (simp add: prepare_def on_store_def Let_def)

lemma applyItems_Cons:
  "applyItems t ctx opts ownerID (item # rest) s =
     (case fire PrePhase UnstructuredPtr None (Pre (Callbacks (Options opts)))
             (prepare (OwnerReferences opts) ownerID item s) of
        (Some err, s3) \<Rightarrow> (Some err, s3)
      | (None, s3) \<Rightarrow>
          (case applyObject ctx (Client t) (u (store s3)) (DryRun (Options opts)) s3 of
             ((new1, statusEntry, err), s4) \<Rightarrow>
               (case fire PostPhase (StatusEntry statusEntry) err (Post (Callbacks (Options opts))) s4 of
                  (Some err', s5) \<Rightarrow> (Some err', s5)
                | (None, s5) \<Rightarrow>
                    applyItems t ctx opts ownerID rest
                      (on_store (SetUnstructuredContent (Object new1)) s5))))"
  by (simp add: prepare_def Let_def)

declare applyItems.simps(2) [simp del]

lemma fire_result:
  assumes "fire ph v err cbs s = (r, s')"
  shows "trace s' = trace s @ [ChainFired ph v err r]"
    and "fireCallbacks v err cbs (store s) = (r, store s')"
  using assms by (auto simp: fire_def split: prod.splits)

lemma applyObject_result:
  assumes "applyObject ctx c item stages s = ((new1, statusEntry, err), s')"
  shows "trace s' = trace s @ [RemoteApply (content (store s) item) stages, RemoteApplyReturned err]"
  using assms by (auto simp: applyObject_def split: prod.splits)

lemma deleteObject_result:
  assumes "deleteObject ctx c item opts s = ((state, err), s')"
  shows "trace s' = trace s @ [RemoteDelete (content (store s) item), RemoteDeleteReturned err]"
  using assms by (auto simp: deleteObject_def split: prod.splits)

lemma fireCallbacks_passes:
  "\<forall>cb\<in>set cbs. passes_error cb \<Longrightarrow> fireCallbacks v (Some e) cbs st = (r, st') \<Longrightarrow> r = Some e"
proof (induction cbs arbitrary: st)
  case Nil
  then show ?case by auto
next
  case (Cons cb cbs)
  obtain r0 st0 where c: "cb v (Some e) st = (r0, st0)" by (cases "cb v (Some e) st")
  from Cons.prems(1) have "fst (cb v (Some e) st) = None \<or> fst (cb v (Some e) st) = Some e"
    by (simp add: passes_error_def)
  with c have r0: "r0 = None \<or> r0 = Some e" by simp
  show ?case
  proof (cases r0)
    case None
    with Cons.prems c have "fireCallbacks v (Some e) cbs st0 = (r, st')" by simp
    with Cons.IH[of st0] Cons.prems(1) show ?thesis by simp
  next
    case (Some a)
    with Cons.prems c r0 show ?thesis by auto
  qed
qed

lemma applyItems_events:
  "applyItems t ctx opts ownerID its s = (result, s') \<Longrightarrow>
   \<exists>evs. trace s' = trace s @ evs \<and> apply_surfaced evs result \<and>
         (\<forall>id e. Wiped id e \<notin> set evs) \<and>
         ((\<forall>cb\<in>set (Post (Callbacks (Options opts))). passes_error cb) \<longrightarrow>
            (\<forall>e. RemoteApplyReturned (Some e) \<in> set evs \<longrightarrow> result = Some e)) \<and>
         ((\<forall>cb\<in>set (Pre (Callbacks (Options opts))). keeps_item cb) \<longrightarrow>
            (\<forall>obj dry. RemoteApply obj dry \<in> set evs \<longrightarrow> tracked ownerID obj))"
proof (induction its arbitrary: s)
  case Nil
  then show ?case by (simp add: apply_surfaced_def)
next
  case (Cons item rest)
  let ?pre = "Pre (Callbacks (Options opts))"
  let ?post = "Post (Callbacks (Options opts))"
  let ?s2 = "prepare (OwnerReferences opts) ownerID item s"
  obtain r1 s3 where f1: "fire PrePhase UnstructuredPtr None ?pre ?s2 = (r1, s3)"
    by (cases "fire PrePhase UnstructuredPtr None ?pre ?s2")
  note t3 = fire_result[OF f1]
  have tr3: "trace s3 = trace s @ [ChainFired PrePhase UnstructuredPtr None r1]"
    using t3(1) by (simp add: prepare_trace)
  show ?case
  proof (cases r1)
    case (Some e1)
    with Cons.prems f1 have "result = Some e1" "s' = s3" by (simp_all add: applyItems_Cons)
    with tr3 show ?thesis
      by (intro exI[of _ "[ChainFired PrePhase UnstructuredPtr None r1]"])
         (simp add: apply_surfaced_def)
  next
    case None
    obtain new1 statusEntry err s4 where
      a: "applyObject ctx (Client t) (u (store s3)) (DryRun (Options opts)) s3 = ((new1, statusEntry, err), s4)"
      by (cases "applyObject ctx (Client t) (u (store s3)) (DryRun (Options opts)) s3") auto
    note t4 = applyObject_result[OF a]
    obtain r2 s5 where f2: "fire PostPhase (StatusEntry statusEntry) err ?post s4 = (r2, s5)"
      by (cases "fire PostPhase (StatusEntry statusEntry) err ?post s4")
    note t5 = fire_result[OF f2]
    let ?round = "[ChainFired PrePhase UnstructuredPtr None r1,
                   RemoteApply (content (store s3) (u (store s3))) (DryRun (Options opts)),
                   RemoteApplyReturned err,
                   ChainFired PostPhase (StatusEntry statusEntry) err r2]"
    have tr5: "trace s5 = trace s @ ?round"
      using tr3 t4 t5(1) by simp
    have tracked3: "(\<forall>cb\<in>set ?pre. keeps_item cb) \<longrightarrow> tracked ownerID (content (store s3) (u (store s3)))"
    proof
      assume "\<forall>cb\<in>set ?pre. keeps_item cb"
      from fireCallbacks_keeps[OF this t3(2)]
      have k: "u (store s3) = u (store ?s2)" "heap (store s3) = heap (store ?s2)"
        by simp_all
      have "content (store s3) (u (store s3)) = content (store ?s2) (u (store ?s2))"
        by (simp only: content_def k)
      then show "tracked ownerID (content (store s3) (u (store s3)))"
        by (simp add: prepare_content tracked_def stamped_def Let_def)
    qed
    have err_r2: "err \<noteq> None \<longrightarrow> r2 \<noteq> None"
      using fireCallbacks_error t5(2) by (cases err) auto
    have pass_r2: "(\<forall>cb\<in>set ?post. passes_error cb) \<longrightarrow> err \<noteq> None \<longrightarrow> r2 = err"
      using fireCallbacks_passes t5(2) by (cases err) auto
    show ?thesis
    proof (cases r2)
      case (Some e2)
      with Cons.prems f1 None a f2 have "result = Some e2" "s' = s5" by (simp_all add: applyItems_Cons)
      with tr5 tracked3 Some pass_r2 show ?thesis
        by (intro exI[of _ ?round]) (auto simp: apply_surfaced_def)
    next
      case N2: None
      with err_r2 have errN: "err = None" by auto
      let ?s6 = "on_store (SetUnstructuredContent (Object new1)) s5"
      from Cons.prems f1 None a f2 N2 have "applyItems t ctx opts ownerID rest ?s6 = (result, s')"
        by (simp add: applyItems_Cons)
      from Cons.IH[OF this] obtain evs where
        evs: "trace s' = trace ?s6 @ evs" "apply_surfaced evs result" "\<forall>id e. Wiped id e \<notin> set evs"
          "(\<forall>cb\<in>set ?pre. keeps_item cb) \<longrightarrow> (\<forall>obj dry. RemoteApply obj dry \<in> set evs \<longrightarrow> tracked ownerID obj)"
          "(\<forall>cb\<in>set ?post. passes_error cb) \<longrightarrow> (\<forall>e. RemoteApplyReturned (Some e) \<in> set evs \<longrightarrow> result = Some e)"
        by blast
      have tr: "trace s' = trace s @ ?round @ evs"
        using evs(1) tr5 by (simp add: on_store_def)
      have surf: "apply_surfaced (?round @ evs) result"
        unfolding apply_surfaced_def
      proof (intro allI impI)
        fix e assume "RemoteApplyReturned (Some e) \<in> set (?round @ evs)"
        with errN have in_evs: "RemoteApplyReturned (Some e) \<in> set evs" by auto
        then have "evs \<noteq> []" by auto
        with evs(2) in_evs show "result \<noteq> None \<and> (\<exists>v. last (?round @ evs) = ChainFired PostPhase v (Some e) result)"
          by (simp add: apply_surfaced_def)
      qed
      show ?thesis
        by (rule exI[of _ "?round @ evs"]) (use tr surf evs(3,4,5) tracked3 errN in auto)
    qed
  qed
qed

lemma deleteItems_events:
  "deleteItems t ctx opts its s = (result, s') \<Longrightarrow>
   \<exists>evs. trace s' = trace s @ evs \<and> delete_surfaced evs result \<and>
         ((\<forall>cb\<in>set (Post (Callbacks (DeleteOptions_Options opts))). passes_error cb) \<longrightarrow>
            (\<forall>e. RemoteDeleteReturned (Some e) \<in> set evs \<longrightarrow> result = Some e))"
proof (induction its arbitrary: s)
  case Nil
  then show ?case by (simp add: delete_surfaced_def)
next
  case (Cons item rest)
  let ?pre = "Pre (Callbacks (DeleteOptions_Options opts))"
  let ?post = "Post (Callbacks (DeleteOptions_Options opts))"
  let ?s0 = "on_store (\<lambda>st. st\<lparr>u := item\<rparr>) s"
  obtain r1 s1 where f1: "fire PrePhase UnstructuredPtr None ?pre ?s0 = (r1, s1)"
    by (cases "fire PrePhase UnstructuredPtr None ?pre ?s0")
  note t1 = fire_result[OF f1]
  have tr1: "trace s1 = trace s @ [ChainFired PrePhase UnstructuredPtr None r1]"
    using t1(1) by (simp add: on_store_def)
  show ?case
  proof (cases r1)
    case (Some e1)
    with Cons.prems f1 have "result = Some e1" "s' = s1" by (simp_all add: Let_def)
    with tr1 show ?thesis
      by (intro exI[of _ "[ChainFired PrePhase UnstructuredPtr None r1]"])
         (simp add: delete_surfaced_def)
  next
    case None
    obtain state err s2 where
      a: "deleteObject ctx (Client t) (u (store s1)) opts s1 = ((state, err), s2)"
      by (cases "deleteObject ctx (Client t) (u (store s1)) opts s1") auto
    note t2 = deleteObject_result[OF a]
    obtain r2 s3 where f2: "fire PostPhase (StatusEntry state) err ?post s2 = (r2, s3)"
      by (cases "fire PostPhase (StatusEntry state) err ?post s2")
    note t3 = fire_result[OF f2]
    let ?round = "[ChainFired PrePhase UnstructuredPtr None r1,
                   RemoteDelete (content (store s1) (u (store s1))),
                   RemoteDeleteReturned err,
                   ChainFired PostPhase (StatusEntry state) err r2]"
    have tr3: "trace s3 = trace s @ ?round"
      using tr1 t2 t3(1) by simp
    have err_r2: "err \<noteq> None \<longrightarrow> r2 \<noteq> None"
      using fireCallbacks_error t3(2) by (cases err) auto
    have pass_r2: "(\<forall>cb\<in>set ?post. passes_error cb) \<longrightarrow> err \<noteq> None \<longrightarrow> r2 = err"
      using fireCallbacks_passes t3(2) by (cases err) auto
    show ?thesis
    proof (cases r2)
      case (Some e2)
      with Cons.prems f1 None a f2 have "result = Some e2" "s' = s3" by (simp_all add: Let_def)
      with tr3 Some pass_r2 show ?thesis
        by (intro exI[of _ ?round]) (auto simp: delete_surfaced_def)
    next
      case N2: None
      with err_r2 have errN: "err = None" by auto
      from Cons.prems f1 None a f2 N2 have "deleteItems t ctx opts rest s3 = (result, s')"
        by (simp add: Let_def)
      from Cons.IH[OF this] obtain evs where
        evs: "trace s' = trace s3 @ evs" "delete_surfaced evs result"
          "(\<forall>cb\<in>set ?post. passes_error cb) \<longrightarrow> (\<forall>e. RemoteDeleteReturned (Some e) \<in> set evs \<longrightarrow> result = Some e)"
        by blast
      have tr: "trace s' = trace s @ ?round @ evs"
        using evs(1) tr3 by simp
      have surf: "delete_surfaced (?round @ evs) result"
        unfolding delete_surfaced_def
      proof (intro allI impI)
        fix e assume "RemoteDeleteReturned (Some e) \<in> set (?round @ evs)"
        with errN have in_evs: "RemoteDeleteReturned (Some e) \<in> set evs" by auto
        then have "evs \<noteq> []" by auto
        with evs(2) in_evs show "result \<noteq> None \<and> (\<exists>v. last (?round @ evs) = ChainFired PostPhase v (Some e) result)"
          by (simp add: delete_surfaced_def)
      qed
      show ?thesis
        by (rule exI[of _ "?round @ evs"]) (use tr surf evs(3) errN in auto)
    qed
  qed
qed

lemma findOwnerID_none:
  "\<forall>ref\<in>set refs. Kind ref \<noteq> ''Function'' \<Longrightarrow> findOwnerID refs = ([], False)"
  by (induction refs) auto

lemma findOwnerID_first:
  "\<forall>ref\<in>set before. Kind ref \<noteq> ''Function'' \<Longrightarrow> Kind owner = ''Function'' \<Longrightarrow>
   findOwnerID (before @ owner # after) = (UID owner, True)"
  by (induction before) auto

lemma wipeRemoved_result:
  assumes "wipeRemoved ctx c its ownerID options s = (err, s')"
  shows "trace s' = trace s @ [Wiped ownerID err]"
  using assms by (auto simp: wipeRemoved_def split: prod.splits)

lemma Apply_found_events:
  assumes "findOwnerID (OwnerReferences opts) = (ownerID, True)"
    and "triggersOperator_Apply t ctx opts s = (result, s')"
  shows "\<exists>werr evs. trace s' = trace s @ Wiped ownerID werr # evs \<and>
           (werr \<noteq> None \<longrightarrow> evs = [] \<and> result = werr) \<and>
           apply_surfaced evs result \<and> (\<forall>id e. Wiped id e \<notin> set evs) \<and>
           ((\<forall>cb\<in>set (Post (Callbacks (Options opts))). passes_error cb) \<longrightarrow>
              (\<forall>e. RemoteApplyReturned (Some e) \<in> set evs \<longrightarrow> result = Some e)) \<and>
           ((\<forall>cb\<in>set (Pre (Callbacks (Options opts))). keeps_item cb) \<longrightarrow>
              (\<forall>obj dry. RemoteApply obj dry \<in> set evs \<longrightarrow> tracked ownerID obj))"
proof -
  obtain werr s1 where w: "wipeRemoved ctx (Client t) (items t) ownerID (Options opts) s = (werr, s1)"
    by (cases "wipeRemoved ctx (Client t) (items t) ownerID (Options opts) s")
  note t1 = wipeRemoved_result[OF w]
  show ?thesis
  proof (cases werr)
    case (Some e)
    with assms w have "result = Some e" "s' = s1" by (simp_all add: triggersOperator_Apply_def)
    with t1 Some show ?thesis
      by (intro exI[of _ werr] exI[of _ "[]"]) (simp add: apply_surfaced_def)
  next
    case None
    with assms w have "applyItems t ctx opts ownerID (items t) s1 = (result, s')"
      by (simp add: triggersOperator_Apply_def)
    from applyItems_events[OF this] obtain evs where
      "trace s' = trace s1 @ evs" "apply_surfaced evs result" "\<forall>id e. Wiped id e \<notin> set evs"
      "(\<forall>cb\<in>set (Post (Callbacks (Options opts))). passes_error cb) \<longrightarrow>
              (\<forall>e. RemoteApplyReturned (Some e) \<in> set evs \<longrightarrow> result = Some e)"
      "(\<forall>cb\<in>set (Pre (Callbacks (Options opts))). keeps_item cb) \<longrightarrow>
              (\<forall>obj dry. RemoteApply obj dry \<in> set evs \<longrightarrow> tracked ownerID obj)"
      by blast
    with t1 None show ?thesis
      by (intro exI[of _ werr] exI[of _ evs]) simp
  qed
qed

lemma Apply_not_found:
  assumes "findOwnerID (OwnerReferences opts) = (ownerID, False)"
  shows "triggersOperator_Apply t ctx opts s = (Some (errors_Wrap errNotFound message), s)"
  using assms by (simp add: triggersOperator_Apply_def)

lemma tevents_ofI: "trace s' = trace s @ evs \<Longrightarrow> tevents_of s s' = evs"
  by (simp add: tevents_of_def)

lemma applyItems_first_round:
  assumes keeps: "\<forall>cb\<in>set (Pre (Callbacks (Options opts))). keeps_item cb"
    and run: "applyItems t ctx opts ownerID (item # rest) s = (result, s')"
  shows "\<exists>pre evs. tevents_of s s' = ChainFired PrePhase UnstructuredPtr None pre # evs \<and>
           (pre = None \<longrightarrow>
              (\<exists>evs'. evs = RemoteApply (Some (stamped (store s) item (OwnerReferences opts) ownerID))
                               (DryRun (Options opts)) # evs'))"
proof -
  let ?pre = "Pre (Callbacks (Options opts))"
  let ?post = "Post (Callbacks (Options opts))"
  let ?s2 = "prepare (OwnerReferences opts) ownerID item s"
  obtain r1 s3 where f1: "fire PrePhase UnstructuredPtr None ?pre ?s2 = (r1, s3)"
    by (cases "fire PrePhase UnstructuredPtr None ?pre ?s2")
  note t3 = fire_result[OF f1]
  have tr3: "trace s3 = trace s @ [ChainFired PrePhase UnstructuredPtr None r1]"
    using t3(1) by (simp add: prepare_trace)
  show ?thesis
  proof (cases r1)
    case (Some e1)
    with run f1 have "s' = s3" by (simp add: applyItems_Cons)
    with tr3 Some show ?thesis by (simp add: tevents_of_def)
  next
    case None
    from fireCallbacks_keeps[OF keeps t3(2)]
    have k: "u (store s3) = u (store ?s2)" "heap (store s3) = heap (store ?s2)"
      by simp_all
    have c3: "content (store s3) (u (store s3)) = Some (stamped (store s) item (OwnerReferences opts) ownerID)"
      by (simp only: content_def k) (simp add: prepare_content[unfolded content_def])
    obtain new1 statusEntry err s4 where
      a: "applyObject ctx (Client t) (u (store s3)) (DryRun (Options opts)) s3 = ((new1, statusEntry, err), s4)"
      by (cases "applyObject ctx (Client t) (u (store s3)) (DryRun (Options opts)) s3") auto
    note t4 = applyObject_result[OF a]
    obtain r2 s5 where f2: "fire PostPhase (StatusEntry statusEntry) err ?post s4 = (r2, s5)"
      by (cases "fire PostPhase (StatusEntry statusEntry) err ?post s4")
    note t5 = fire_result[OF f2]
    have "\<exists>evs. trace s' = trace s5 @ evs"
    proof (cases r2)
      case (Some e2)
      with run f1 None a f2 have "s' = s5" by (simp add: applyItems_Cons)
      then show ?thesis by simp
    next
      case N2: None
      with run f1 None a f2 have
        "applyItems t ctx opts ownerID rest (on_store (SetUnstructuredContent (Object new1)) s5) = (result, s')"
        by (simp add: applyItems_Cons)
      from applyItems_events[OF this] show ?thesis by (auto simp: on_store_def)
    qed
    then obtain evs where "trace s' = trace s5 @ evs" by blast
    with tr3 t4 t5(1) c3 None show ?thesis by (simp add: tevents_of_def)
  qed
qed

section \<open>Claims about the linked-items operator\<close>

lemmas example_triggers_defs =
  example_tstate_def example_client_def example_failing_client_def example_triggers_def
  example_reference_def example_apply_options_def example_delete_options_def example_entry_def
  example_object_def empty_object_def
  triggersOperator_Apply_def triggersOperator_Delete_def applyItems.simps wipeRemoved_def
  applyObject_def deleteObject_def fire_def on_store_def SetOwnerReferences_u_def SetLabels_def
  setNestedField_def SetUnstructuredContent_def GetLabels_def mergeMap_def content_def
  read_items_def tevents_of_def message_def errNotFound_def Let_def

text \<open>
  Claim C5. When a remote apply (delete) of an item returns an error, \<open>Apply\<close> (\<open>Delete\<close>)
  returns an error: the result of the Post chain fired on that error, which is the last
  thing the operator does. That result is the remote error itself when the Post callbacks
  hand an error on or return none, in particular when there is no Post callback. An error
  of the wipe step is returned as it is.
\<close>

theorem remote_failure_is_returned:
  "(triggersOperator_Apply t ctx opts s = (result, s') \<longrightarrow>
      (\<forall>e. RemoteApplyReturned (Some e) \<in> set (tevents_of s s') \<longrightarrow>
         result \<noteq> None \<and>
         (\<exists>v. last (tevents_of s s') = ChainFired PostPhase v (Some e) result) \<and>
         ((\<forall>cb\<in>set (Post (Callbacks (Options opts))). passes_error cb) \<longrightarrow> result = Some e) \<and>
         (Post (Callbacks (Options opts)) = [] \<longrightarrow> result = Some e)) \<and>
      (\<forall>ownerID e. Wiped ownerID (Some e) \<in> set (tevents_of s s') \<longrightarrow> result = Some e)) \<and>
   (triggersOperator_Delete t ctx dopts s = (dresult, ds') \<longrightarrow>
      (\<forall>e. RemoteDeleteReturned (Some e) \<in> set (tevents_of s ds') \<longrightarrow>
         dresult \<noteq> None \<and>
         (\<exists>v. last (tevents_of s ds') = ChainFired PostPhase v (Some e) dresult) \<and>
         ((\<forall>cb\<in>set (Post (Callbacks (DeleteOptions_Options dopts))). passes_error cb) \<longrightarrow> dresult = Some e) \<and>
         (Post (Callbacks (DeleteOptions_Options dopts)) = [] \<longrightarrow> dresult = Some e)))"
proof (intro conjI impI)
  assume run: "triggersOperator_Apply t ctx opts s = (result, s')"
  obtain ownerID found where f: "findOwnerID (OwnerReferences opts) = (ownerID, found)"
    by (cases "findOwnerID (OwnerReferences opts)")
  have "(\<forall>e. RemoteApplyReturned (Some e) \<in> set (tevents_of s s') \<longrightarrow>
         result \<noteq> None \<and>
         (\<exists>v. last (tevents_of s s') = ChainFired PostPhase v (Some e) result) \<and>
         ((\<forall>cb\<in>set (Post (Callbacks (Options opts))). passes_error cb) \<longrightarrow> result = Some e) \<and>
         (Post (Callbacks (Options opts)) = [] \<longrightarrow> result = Some e)) \<and>
      (\<forall>ownerID e. Wiped ownerID (Some e) \<in> set (tevents_of s s') \<longrightarrow> result = Some e)"
  proof (cases found)
    case False
    with f run Apply_not_found[of opts ownerID t ctx s] have "s' = s" by simp
    then show ?thesis by (simp add: tevents_of_def)
  next
    case True
    with f have "findOwnerID (OwnerReferences opts) = (ownerID, True)" by simp
    from Apply_found_events[OF this run] obtain werr evs where
      ev: "trace s' = trace s @ Wiped ownerID werr # evs"
        "werr \<noteq> None \<longrightarrow> evs = [] \<and> result = werr"
        "apply_surfaced evs result" "\<forall>id e. Wiped id e \<notin> set evs"
        "(\<forall>cb\<in>set (Post (Callbacks (Options opts))). passes_error cb) \<longrightarrow>
              (\<forall>e. RemoteApplyReturned (Some e) \<in> set evs \<longrightarrow> result = Some e)"
      by blast
    have te: "tevents_of s s' = Wiped ownerID werr # evs"
      using ev(1) by (simp add: tevents_of_def)
    have a: "\<forall>e. RemoteApplyReturned (Some e) \<in> set (Wiped ownerID werr # evs) \<longrightarrow>
         result \<noteq> None \<and>
         (\<exists>v. last (Wiped ownerID werr # evs) = ChainFired PostPhase v (Some e) result) \<and>
         ((\<forall>cb\<in>set (Post (Callbacks (Options opts))). passes_error cb) \<longrightarrow> result = Some e) \<and>
         (Post (Callbacks (Options opts)) = [] \<longrightarrow> result = Some e)"
    proof (intro allI impI)
      fix e assume "RemoteApplyReturned (Some e) \<in> set (Wiped ownerID werr # evs)"
      then have in_evs: "RemoteApplyReturned (Some e) \<in> set evs" by simp
      then have ne: "evs \<noteq> []" by auto
      from ev(3) in_evs have "result \<noteq> None" "\<exists>v. last evs = ChainFired PostPhase v (Some e) result"
        by (simp_all add: apply_surfaced_def)
      moreover from ev(5) in_evs
      have "(\<forall>cb\<in>set (Post (Callbacks (Options opts))). passes_error cb) \<longrightarrow> result = Some e"
        by blast
      moreover from this have "Post (Callbacks (Options opts)) = [] \<longrightarrow> result = Some e"
        by simp
      ultimately show "result \<noteq> None \<and>
         (\<exists>v. last (Wiped ownerID werr # evs) = ChainFired PostPhase v (Some e) result) \<and>
         ((\<forall>cb\<in>set (Post (Callbacks (Options opts))). passes_error cb) \<longrightarrow> result = Some e) \<and>
         (Post (Callbacks (Options opts)) = [] \<longrightarrow> result = Some e)"
        using ne by simp
    qed
    have b: "\<forall>id e. Wiped id (Some e) \<in> set (Wiped ownerID werr # evs) \<longrightarrow> result = Some e"
      using ev(2,4) by auto
    from a b show ?thesis unfolding te by blast
  qed
  then show "\<forall>e. RemoteApplyReturned (Some e) \<in> set (tevents_of s s') \<longrightarrow>
         result \<noteq> None \<and>
         (\<exists>v. last (tevents_of s s') = ChainFired PostPhase v (Some e) result) \<and>
         ((\<forall>cb\<in>set (Post (Callbacks (Options opts))). passes_error cb) \<longrightarrow> result = Some e) \<and>
         (Post (Callbacks (Options opts)) = [] \<longrightarrow> result = Some e)"
    and "\<forall>ownerID e. Wiped ownerID (Some e) \<in> set (tevents_of s s') \<longrightarrow> result = Some e"
    by blast+
next
  assume "triggersOperator_Delete t ctx dopts s = (dresult, ds')"
  then have "deleteItems t ctx dopts (items t) s = (dresult, ds')"
    by (simp add: triggersOperator_Delete_def)
  from deleteItems_events[OF this] obtain evs where
    ev: "trace ds' = trace s @ evs" "delete_surfaced evs dresult"
      "(\<forall>cb\<in>set (Post (Callbacks (DeleteOptions_Options dopts))). passes_error cb) \<longrightarrow>
            (\<forall>e. RemoteDeleteReturned (Some e) \<in> set evs \<longrightarrow> dresult = Some e)"
    by blast
  have te: "tevents_of s ds' = evs" using ev(1) by (simp add: tevents_of_def)
  show "\<forall>e. RemoteDeleteReturned (Some e) \<in> set (tevents_of s ds') \<longrightarrow>
         dresult \<noteq> None \<and>
         (\<exists>v. last (tevents_of s ds') = ChainFired PostPhase v (Some e) dresult) \<and>
         ((\<forall>cb\<in>set (Post (Callbacks (DeleteOptions_Options dopts))). passes_error cb) \<longrightarrow> dresult = Some e) \<and>
         (Post (Callbacks (DeleteOptions_Options dopts)) = [] \<longrightarrow> dresult = Some e)"
    unfolding te using ev(2,3) by (auto simp: delete_surfaced_def)
qed

theorem remote_failure_is_returned_witness:
  "fst (triggersOperator_Apply (example_triggers example_failing_client) Background
          (example_apply_options [example_reference ''Function'' ''fn-uid'']) example_tstate)
     = Some (errors_New ''apply failed'') \<and>
   RemoteApplyReturned (Some (errors_New ''apply failed''))
     \<in> set (tevents_of example_tstate
          (snd (triggersOperator_Apply (example_triggers example_failing_client) Background
            (example_apply_options [example_reference ''Function'' ''fn-uid'']) example_tstate))) \<and>
   Post (Callbacks (Options (example_apply_options [example_reference ''Function'' ''fn-uid'']))) = [] \<and>
   fst (triggersOperator_Delete (example_triggers example_failing_client) Background
          example_delete_options example_tstate)
     = Some (errors_New ''delete failed'') \<and>
   RemoteDeleteReturned (Some (errors_New ''delete failed''))
     \<in> set (tevents_of example_tstate
          (snd (triggersOperator_Delete (example_triggers example_failing_client) Background
            example_delete_options example_tstate)))"
  using remote_failure_is_returned [where t = "example_triggers example_failing_client"
          and ctx = Background
          and opts = "example_apply_options [example_reference ''Function'' ''fn-uid'']"
          and s = example_tstate
          and result = "fst (triggersOperator_Apply (example_triggers example_failing_client) Background
            (example_apply_options [example_reference ''Function'' ''fn-uid'']) example_tstate)"
          and s' = "snd (triggersOperator_Apply (example_triggers example_failing_client) Background
            (example_apply_options [example_reference ''Function'' ''fn-uid'']) example_tstate)"
          and dopts = example_delete_options
          and dresult = "fst (triggersOperator_Delete (example_triggers example_failing_client) Background
            example_delete_options example_tstate)"
          and ds' = "snd (triggersOperator_Delete (example_triggers example_failing_client) Background
            example_delete_options example_tstate)"]
  by (simp add: example_triggers_defs)

text \<open>
  Claim C7. With no inherited owner reference of kind \<open>Function\<close>, and so with the empty
  list, \<open>Apply\<close> returns the wrapped not-found error and the state it started from, events
  included: no wipe, no apply, no callback, whatever the client and the callbacks are.
\<close>

theorem Apply_without_owner_reference:
  "((\<forall>ref\<in>set (OwnerReferences opts). Kind ref \<noteq> ''Function'') \<longrightarrow>
      triggersOperator_Apply t ctx opts s = (Some (errors_Wrap errNotFound message), s)) \<and>
   triggersOperator_Apply t ctx (opts\<lparr>OwnerReferences := []\<rparr>) s
     = (Some (errors_Wrap errNotFound message), s)"
proof (intro conjI impI)
  assume "\<forall>ref\<in>set (OwnerReferences opts). Kind ref \<noteq> ''Function''"
  from findOwnerID_none[OF this] Apply_not_found
  show "triggersOperator_Apply t ctx opts s = (Some (errors_Wrap errNotFound message), s)"
    by blast
next
  show "triggersOperator_Apply t ctx (opts\<lparr>OwnerReferences := []\<rparr>) s
     = (Some (errors_Wrap errNotFound message), s)"
    by (simp add: triggersOperator_Apply_def)
qed

theorem Apply_without_owner_reference_witness:
  "Kind (example_reference ''function'' ''fn-uid'') \<noteq> ''Function'' \<and>
   triggersOperator_Apply (example_triggers example_client) Background
     (example_apply_options [example_reference ''function'' ''fn-uid'']) example_tstate
     = (Some (errors_Wrap (errors_New ''not found'') ''ownerID''), example_tstate) \<and>
   trace example_tstate = [] \<and> remote (store example_tstate) = 0"
  using Apply_without_owner_reference [where t = "example_triggers example_client"
          and ctx = Background
          and opts = "example_apply_options [example_reference ''function'' ''fn-uid'']"
          and s = example_tstate]
  by (simp add: example_tstate_def example_reference_def example_apply_options_def
        errNotFound_def message_def)

text \<open>
  Claim C8, on the code. After a successful \<open>Apply\<close> of the example operator, the item in
  the operator's list still refers to the map it referred to before: that map got the owner
  references and the tracking label, but not what the server returned (the \<open>uid\<close>). The
  server's content sits at a new address, held only by the loop variable.
\<close>

theorem Apply_leaves_items_unreplaced:
  "fst (triggersOperator_Apply (example_triggers example_client) Background
          (example_apply_options [example_reference ''Function'' ''fn-uid'']) example_tstate) = None \<and>
   map (map_option other_fields)
     (read_items (example_triggers example_client)
        (snd (triggersOperator_Apply (example_triggers example_client) Background
          (example_apply_options [example_reference ''Function'' ''fn-uid'']) example_tstate)))
     = [Some [(''spec'', ''v1'')]] \<and>
   map (map_option ownerReferences)
     (read_items (example_triggers example_client)
        (snd (triggersOperator_Apply (example_triggers example_client) Background
          (example_apply_options [example_reference ''Function'' ''fn-uid'']) example_tstate)))
     = [Some (Some [example_reference ''Function'' ''fn-uid''])] \<and>
   u (store (snd (triggersOperator_Apply (example_triggers example_client) Background
          (example_apply_options [example_reference ''Function'' ''fn-uid'']) example_tstate)))
     = \<lparr>Object = Some 1\<rparr> \<and>
   other_fields (heap (store (snd (triggersOperator_Apply (example_triggers example_client) Background
          (example_apply_options [example_reference ''Function'' ''fn-uid'']) example_tstate))) 1)
     = [(''uid'', ''srv-1''), (''spec'', ''v1'')] \<and>
   items (example_triggers example_client) = [\<lparr>Object = Some 0\<rparr>]"
  by (simp add: example_triggers_defs)

text \<open>
  Claim C9. \<open>mergeMap\<close> binds every key of the desired map to the desired value and leaves
  every other key of the existing map as it was; a nil existing map gives the desired one.
  The item \<open>Apply\<close> prepares carries the tracking label \<open>ownerID\<close> with the owner's
  identifier and every other label it had; that item is what a round of \<open>Apply\<close> hands
  to the remote apply when the Pre callbacks do not rewrite it and do not fail.
\<close>

theorem mergeMap_labels:
  "mergeMap None desired = desired \<and>
   mergeMap (Some existing) None = Some existing \<and>
   (\<exists>m. mergeMap (Some existing) (Some wanted) = Some m \<and>
        (\<forall>k\<in>dom wanted. m k = wanted k) \<and>
        (\<forall>k. k \<notin> dom wanted \<longrightarrow> m k = existing k)) \<and>
   (\<exists>l. labels (stamped st item references ownerID) = Some l \<and>
        l message = Some ownerID \<and>
        (\<forall>k. k \<noteq> message \<longrightarrow>
           l k = (case content st item of
                    None \<Rightarrow> None
                  | Some obj \<Rightarrow> (case labels obj of None \<Rightarrow> None | Some ex \<Rightarrow> ex k)))) \<and>
   ((\<forall>cb\<in>set (Pre (Callbacks (Options opts))). keeps_item cb) \<and>
    applyItems t ctx opts ownerID (item # rest) s = (result, s') \<longrightarrow>
      (\<exists>pre evs. tevents_of s s' = ChainFired PrePhase UnstructuredPtr None pre # evs \<and>
         (pre = None \<longrightarrow>
            (\<exists>evs'. evs = RemoteApply (Some (stamped (store s) item (OwnerReferences opts) ownerID))
                             (DryRun (Options opts)) # evs'))))"
proof (intro conjI)
  show "mergeMap None desired = desired" by (simp add: mergeMap_def)
  show "mergeMap (Some existing) None = Some existing" by (simp add: mergeMap_def)
  show "\<exists>m. mergeMap (Some existing) (Some wanted) = Some m \<and>
        (\<forall>k\<in>dom wanted. m k = wanted k) \<and>
        (\<forall>k. k \<notin> dom wanted \<longrightarrow> m k = existing k)"
    by (auto simp: mergeMap_def map_add_def split: option.splits)
  show "\<exists>l. labels (stamped st item references ownerID) = Some l \<and>
        l message = Some ownerID \<and>
        (\<forall>k. k \<noteq> message \<longrightarrow>
           l k = (case content st item of
                    None \<Rightarrow> None
                  | Some obj \<Rightarrow> (case labels obj of None \<Rightarrow> None | Some ex \<Rightarrow> ex k)))"
    by (auto simp: stamped_def Let_def empty_object_def split: option.splits)
  show "(\<forall>cb\<in>set (Pre (Callbacks (Options opts))). keeps_item cb) \<and>
    applyItems t ctx opts ownerID (item # rest) s = (result, s') \<longrightarrow>
      (\<exists>pre evs. tevents_of s s' = ChainFired PrePhase UnstructuredPtr None pre # evs \<and>
         (pre = None \<longrightarrow>
            (\<exists>evs'. evs = RemoteApply (Some (stamped (store s) item (OwnerReferences opts) ownerID))
                             (DryRun (Options opts)) # evs')))"
    using applyItems_first_round by blast
qed

theorem mergeMap_labels_witness:
  "mergeMap (Some [''app'' \<mapsto> ''demo'', ''ownerID'' \<mapsto> ''old'']) (Some [''ownerID'' \<mapsto> ''fn-uid''])
     = Some [''app'' \<mapsto> ''demo'', ''ownerID'' \<mapsto> ''fn-uid''] \<and>
   labels (stamped (store example_tstate) \<lparr>Object = Some 0\<rparr> [] ''fn-uid'')
     = Some [''app'' \<mapsto> ''demo'', ''ownerID'' \<mapsto> ''fn-uid''] \<and>
   tevents_of example_tstate
     (snd (applyItems (example_triggers example_client) Background
        (example_apply_options [example_reference ''Function'' ''fn-uid'']) ''fn-uid''
        [\<lparr>Object = Some 0\<rparr>] example_tstate))
     = [ChainFired PrePhase UnstructuredPtr None None,
        RemoteApply (Some (stamped (store example_tstate) \<lparr>Object = Some 0\<rparr>
                       [example_reference ''Function'' ''fn-uid''] ''fn-uid'')) [],
        RemoteApplyReturned None,
        ChainFired PostPhase (StatusEntry (example_entry StatusTypeApplied)) None None]"
  using mergeMap_labels [where existing = "[''app'' \<mapsto> ''demo'', ''ownerID'' \<mapsto> ''old'']"
          and wanted = "[''ownerID'' \<mapsto> ''fn-uid'']" and desired = None
          and st = "store example_tstate" and item = "\<lparr>Object = Some 0\<rparr>"
          and references = "[]" and ownerID = "''fn-uid''"
          and opts = "example_apply_options [example_reference ''Function'' ''fn-uid'']"
          and t = "example_triggers example_client" and ctx = Background and rest = "[]"
          and s = example_tstate
          and result = "fst (applyItems (example_triggers example_client) Background
        (example_apply_options [example_reference ''Function'' ''fn-uid'']) ''fn-uid''
        [\<lparr>Object = Some 0\<rparr>] example_tstate)"
          and s' = "snd (applyItems (example_triggers example_client) Background
        (example_apply_options [example_reference ''Function'' ''fn-uid'']) ''fn-uid''
        [\<lparr>Object = Some 0\<rparr>] example_tstate)"]
  by (simp add: example_triggers_defs stamped_def map_add_def fun_eq_iff)

text \<open>
  Claim C10. When the inherited list is some references of other kinds, then one of kind
  \<open>Function\<close>, then anything, \<open>findOwnerID\<close> returns the UID of that first \<open>Function\<close>
  reference; \<open>Apply\<close> wipes for that identifier, and every item it sends to the remote apply
  carries it as tracking label (when the Pre callbacks do not rewrite the item).
\<close>

theorem owner_is_first_Function_reference:
  assumes "\<forall>ref\<in>set before. Kind ref \<noteq> ''Function''"
    and "Kind owner = ''Function''"
    and "OwnerReferences opts = before @ owner # after"
    and "triggersOperator_Apply t ctx opts s = (result, s')"
  shows "findOwnerID (OwnerReferences opts) = (UID owner, True) \<and>
         (\<exists>werr evs. tevents_of s s' = Wiped (UID owner) werr # evs) \<and>
         ((\<forall>cb\<in>set (Pre (Callbacks (Options opts))). keeps_item cb) \<longrightarrow>
            (\<forall>obj dry. RemoteApply obj dry \<in> set (tevents_of s s') \<longrightarrow> tracked (UID owner) obj))"
proof -
  have f: "findOwnerID (OwnerReferences opts) = (UID owner, True)"
    using findOwnerID_first[OF assms(1,2)] assms(3) by simp
  from Apply_found_events[OF f assms(4)] obtain werr evs where
    ev: "trace s' = trace s @ Wiped (UID owner) werr # evs"
      "(\<forall>cb\<in>set (Pre (Callbacks (Options opts))). keeps_item cb) \<longrightarrow>
              (\<forall>obj dry. RemoteApply obj dry \<in> set evs \<longrightarrow> tracked (UID owner) obj)"
    by blast
  have te: "tevents_of s s' = Wiped (UID owner) werr # evs"
    using ev(1) by (simp add: tevents_of_def)
  show ?thesis unfolding te using f ev(2) by auto
qed

theorem owner_is_first_Function_reference_witness:
  "findOwnerID [example_reference ''function'' ''lower'', example_reference ''Function'' ''fn-uid'',
                example_reference ''Function'' ''second'']
     = (''fn-uid'', True) \<and>
   hd (tevents_of example_tstate
        (snd (triggersOperator_Apply (example_triggers example_client) Background
          (example_apply_options
             [example_reference ''function'' ''lower'', example_reference ''Function'' ''fn-uid'',
              example_reference ''Function'' ''second'']) example_tstate)))
     = Wiped ''fn-uid'' None \<and>
   tracked ''fn-uid''
     (Some (stamped (store example_tstate) \<lparr>Object = Some 0\<rparr>
        [example_reference ''function'' ''lower'', example_reference ''Function'' ''fn-uid'',
         example_reference ''Function'' ''second''] ''fn-uid'')) \<and>
   RemoteApply
     (Some (stamped (store example_tstate) \<lparr>Object = Some 0\<rparr>
        [example_reference ''function'' ''lower'', example_reference ''Function'' ''fn-uid'',
         example_reference ''Function'' ''second''] ''fn-uid'')) []
     \<in> set (tevents_of example_tstate
        (snd (triggersOperator_Apply (example_triggers example_client) Background
          (example_apply_options
             [example_reference ''function'' ''lower'', example_reference ''Function'' ''fn-uid'',
              example_reference ''Function'' ''second'']) example_tstate)))"
  using owner_is_first_Function_reference [where before = "[example_reference ''function'' ''lower'']"
          and owner = "example_reference ''Function'' ''fn-uid''"
          and after = "[example_reference ''Function'' ''second'']"
          and opts = "example_apply_options
             [example_reference ''function'' ''lower'', example_reference ''Function'' ''fn-uid'',
              example_reference ''Function'' ''second'']"
          and t = "example_triggers example_client" and ctx = Background and s = example_tstate
          and result = "fst (triggersOperator_Apply (example_triggers example_client) Background
          (example_apply_options
             [example_reference ''function'' ''lower'', example_reference ''Function'' ''fn-uid'',
              example_reference ''Function'' ''second'']) example_tstate)"
          and s' = "snd (triggersOperator_Apply (example_triggers example_client) Background
          (example_apply_options
             [example_reference ''function'' ''lower'', example_reference ''Function'' ''fn-uid'',
              example_reference ''Function'' ''second'']) example_tstate)"]
  by (simp add: example_triggers_defs tracked_def stamped_def)

end
